theory Spec2Isabelle
  imports Main "HOL-Library.AList"
begin

section \<open>Values, handlers and the environment\<close>

text \<open>
  The engine of \<^verbatim>\<open>src/core/StateMachine.js\<close> is embedded with explicit state passing.
  A JavaScript value is a \<open>val\<close>; the three module symbols are \<open>Sym\<close> values with the
  descriptions the source gives them. State identifiers are values compared by \<open>===\<close>,
  which on the primitive values used as identifiers is equality of \<open>val\<close>.

  A handler (hook, action, condition) is a function of its arguments and of the world
  outside the engine; it either throws (\<open>Inl\<close>) or returns (\<open>Inr\<close>) and leaves a new
  world. Handlers run atomically, one after the other, and do not reach back into the
  engine that calls them. Every invocation is recorded in \<open>trace\<close> with the kind of the
  call site and the arguments.
\<close>

datatype val =
    Undefined
  | Null
  | Bool bool
  | Num int
  | Str string
  | Sym string
  | Arr "val list"
  | Obj "(string \<times> val) list"
  | UnhandledEventError val val val
  | StateMachineNotStartedError string
  | StateMachineConfigError string

definition stopped :: val where
  "stopped = Sym ''StateMachine:stopped''"

definition symHandlerThrewError :: val where
  "symHandlerThrewError = Sym ''StateMachine::symHandlerThrewError''"

definition ignoreHandlerResult :: val where
  "ignoreHandlerResult = Sym ''StateMachine::ignoreHandlerResult''"

text \<open>JavaScript truthiness, as used by \<^verbatim>\<open>if (x)\<close> and \<^verbatim>\<open>!x\<close>.\<close>

fun truthy :: "val \<Rightarrow> bool" where
  "truthy Undefined = False"
| "truthy Null = False"
| "truthy (Bool b) = b"
| "truthy (Num n) = (n \<noteq> 0)"
| "truthy (Str s) = (s \<noteq> [])"
| "truthy _ = True"

text \<open>\<^verbatim>\<open>Array.isArray(x)\<close> and \<^verbatim>\<open>x[0]\<close>; reading index 0 of an empty array is \<^verbatim>\<open>undefined\<close>.\<close>

fun isArray :: "val \<Rightarrow> bool" where
  "isArray (Arr xs) = True"
| "isArray _ = False"

fun first :: "val list \<Rightarrow> val" where
  "first [] = Undefined"
| "first (x # xs) = x"

fun index0 :: "val \<Rightarrow> val" where
  "index0 (Arr xs) = first xs"
| "index0 _ = Undefined"

type_synonym 'w handler = "val list \<Rightarrow> 'w \<Rightarrow> (val + val) \<times> 'w"

datatype callKind =
    UnhandledEventHook
  | TransitionHook
  | StateEnterHook
  | StateExitHook
  | StateChangeHook
  | EntryAction
  | ExitAction
  | TransitionAction
  | Condition

record 'w env =
  world :: 'w
  trace :: "(callKind \<times> val list) list"
  activeTimers :: "nat list"
  nextTimerID :: nat
  noopCompletions :: "nat list"
  nextRegistration :: nat
  nextObjectID :: nat

definition callHandler ::
  "callKind \<Rightarrow> 'w handler \<Rightarrow> val list \<Rightarrow> 'w env \<Rightarrow> (val + val) \<times> 'w env" where
  "callHandler k h args env =
     (case h args (world env) of
        (r, w) \<Rightarrow> (r, env\<lparr>world := w, trace := trace env @ [(k, args)]\<rparr>))"

text \<open>
  Modelled from the spec: \<^verbatim>\<open>utils/invokeEach\<close> is not among the sources. The spec gives
  it as a fan-out over an ordered handler list: every handler is invoked with the same
  arguments, the results are collected in input order once all have settled, and a
  failure of a handler is the failure of the fan-out. \<open>settleEach\<close> runs the handlers
  in list order and collects what each one settled with; \<open>invokeEach\<close> fails with the
  first failure in list order, if there is one.
\<close>

fun settleEach ::
  "callKind \<Rightarrow> 'w handler list \<Rightarrow> val list \<Rightarrow> 'w env \<Rightarrow> (val + val) list \<times> 'w env" where
  "settleEach k [] args env = ([], env)"
| "settleEach k (h # hs) args env =
     (case callHandler k h args env of
        (r, env1) \<Rightarrow> (case settleEach k hs args env1 of (rs, env2) \<Rightarrow> (r # rs, env2)))"

fun collect :: "(val + val) list \<Rightarrow> val + val list" where
  "collect [] = Inr []"
| "collect (Inl e # rs) = Inl e"
| "collect (Inr v # rs) = (case collect rs of Inl e \<Rightarrow> Inl e | Inr vs \<Rightarrow> Inr (v # vs))"

definition invokeEach ::
  "callKind \<Rightarrow> 'w handler list \<Rightarrow> val list \<Rightarrow> 'w env \<Rightarrow> (val + val list) \<times> 'w env" where
  "invokeEach k hs args env =
     (case settleEach k hs args env of (rs, env1) \<Rightarrow> (collect rs, env1))"

section \<open>Configuration\<close>

text \<open>
  The configuration objects the engine reads. A JavaScript \<^verbatim>\<open>Map\<close> is an association
  list read with \<open>map_of\<close>; an optional member (\<^verbatim>\<open>null\<close> when absent) is an \<open>option\<close>,
  except \<open>targetState\<close>, which the engine compares with \<^verbatim>\<open>null\<close> itself and is kept
  as a value. The type \<open>config\<close> holds the configuration objects that pass the checks
  of the constructor (lines 11-24); what is handed to the constructor is a \<open>rawConfig\<close>:
  such an object, or any other value.
\<close>

record 'w transitionConfig =
  condition :: "'w handler option"
  actions :: "'w handler list"
  targetState :: val
  isInternal :: bool
  ignore :: bool

record 'w triggerConfig =
  transitions :: "'w transitionConfig list"

record 'w timerConfig = "'w triggerConfig" +
  timeout :: nat

record 'w asyncActionConfig =
  action :: "'w handler"
  successTrigger :: "'w triggerConfig"
  failureTrigger :: "'w triggerConfig"

record 'w globalConfig =
  unhandledEventHooks :: "'w handler list"
  transitionHooks :: "'w handler list"
  stateEnterHooks :: "'w handler list"
  stateExitHooks :: "'w handler list"
  stateChangeHooks :: "'w handler list"

datatype 'w config =
  Config
    (initialState: val)
    (global: "'w globalConfig")
    (states: "(val \<times> 'w stateConfig) list")
and 'w stateConfig =
  StateConfig
    (entryActions: "'w handler list")
    (exitActions: "'w handler list")
    (events: "(val \<times> 'w triggerConfig) list")
    (anyEventTrigger: "'w triggerConfig option")
    (asyncActions: "'w asyncActionConfig list")
    (timers: "'w timerConfig list")
    (submachine: "'w rawConfig")
and 'w rawConfig =
    RawValue val
  | RawConfig "'w config"

section \<open>The engine instance and its collaborators\<close>

text \<open>
  An instance carries an object identity \<open>oid\<close>, drawn from \<open>nextObjectID\<close> when the
  constructor runs; the child engines of \<^verbatim>\<open>this.submachines\<close> are owned by their parent
  and stored in it. \<^verbatim>\<open>timerIDs\<close> and \<^verbatim>\<open>asyncActionCancelers\<close> are \<^verbatim>\<open>null\<close> (\<open>None\<close>) or
  an array. A canceler is the number of the registration whose completion routing it
  replaces by \<^verbatim>\<open>noop\<close>; \<open>noopCompletions\<close> lists the registrations so silenced.
\<close>

datatype 'w engine =
  Engine
    (oid: nat)
    (config: "'w config")
    (currentState: val)
    (submachines: "(val \<times> 'w engine) list")
    (stateData: "(val \<times> val) list")
    (timerIDs: "nat list option")
    (asyncActionCancelers: "nat list option")

fun set_currentState :: "val \<Rightarrow> 'w engine \<Rightarrow> 'w engine" where
  "set_currentState s (Engine i cfg cur subs sd tids cs) = Engine i cfg s subs sd tids cs"

fun set_submachines :: "(val \<times> 'w engine) list \<Rightarrow> 'w engine \<Rightarrow> 'w engine" where
  "set_submachines m (Engine i cfg cur subs sd tids cs) = Engine i cfg cur m sd tids cs"

fun set_timerIDs :: "nat list option \<Rightarrow> 'w engine \<Rightarrow> 'w engine" where
  "set_timerIDs t (Engine i cfg cur subs sd tids cs) = Engine i cfg cur subs sd t cs"

fun set_asyncActionCancelers :: "nat list option \<Rightarrow> 'w engine \<Rightarrow> 'w engine" where
  "set_asyncActionCancelers c (Engine i cfg cur subs sd tids cs) = Engine i cfg cur subs sd tids c"

text \<open>
  The constructor (lines 10-35). A value that is no configuration object is rejected:
  \<^verbatim>\<open>undefined\<close> and \<^verbatim>\<open>null\<close> by line 11, a value whose \<^verbatim>\<open>typeof\<close> is not \<^verbatim>\<open>'object'\<close> by
  line 14, and any other object by line 17, since its \<^verbatim>\<open>states\<close> is no \<^verbatim>\<open>Map\<close>. On a
  configuration object the instance is initialised (lines 25-34, \<open>newEngine\<close>): it starts
  stopped, with no child, one empty scratch object per configured state, and no timer
  or canceler array.
\<close>

fun isObject :: "val \<Rightarrow> bool" where
  "isObject Undefined = False"
| "isObject Null = False"
| "isObject (Bool b) = False"
| "isObject (Num n) = False"
| "isObject (Str s) = False"
| "isObject (Sym s) = False"
| "isObject _ = True"

definition newEngine :: "'w config \<Rightarrow> 'w env \<Rightarrow> 'w engine \<times> 'w env" where
  "newEngine cfg env =
     (Engine (nextObjectID env) cfg stopped [] (map (\<lambda>kv. (fst kv, Obj [])) (states cfg)) None None,
      env\<lparr>nextObjectID := Suc (nextObjectID env)\<rparr>)"

fun newStateMachine :: "'w rawConfig \<Rightarrow> 'w env \<Rightarrow> (val + 'w engine) \<times> 'w env" where
  "newStateMachine (RawValue v) env =
     (if v = Undefined \<or> v = Null
      then (Inl (StateMachineConfigError ''Configuration must be specified.''), env)
      else if v = Null \<or> \<not> isObject v
      then (Inl (StateMachineConfigError ''Configuration must be an object.''), env)
      else (Inl (StateMachineConfigError ''Configuration is malformed.''), env))"
| "newStateMachine (RawConfig cfg) env =
     (case newEngine cfg env of (eng, env1) \<Rightarrow> (Inr eng, env1))"

text \<open>The truthiness of \<^verbatim>\<open>stateConfig.submachine\<close>; a configuration object is truthy.\<close>

fun declared :: "'w rawConfig \<Rightarrow> bool" where
  "declared (RawValue v) = truthy v"
| "declared (RawConfig cfg) = True"

text \<open>
  The task scheduler is the constructor's second argument, supplied by the caller. The
  engine only calls \<^verbatim>\<open>enqueue\<close> on it with a unit of work; the scheduler is taken as a
  parameter \<open>sched\<close> that sees which unit is submitted, works on the world, and either
  throws or hands back a promise. A submitted unit runs later: the bodies of the units
  are \<open>startAsyncActionUnit\<close> and \<open>executeTriggerUnit\<close> below.
\<close>

datatype 'w task =
    StartAsyncActionTask "'w asyncActionConfig" val val
  | InvokeAsyncActionTask "'w asyncActionConfig" val val nat
  | ExecuteTriggerTask "'w transitionConfig list" val

type_synonym 'w taskScheduler = "'w task \<Rightarrow> 'w \<Rightarrow> (val + unit) \<times> 'w"

definition enqueue :: "'w taskScheduler \<Rightarrow> 'w task \<Rightarrow> 'w env \<Rightarrow> (val + unit) \<times> 'w env" where
  "enqueue sched task env =
     (case sched task (world env) of (r, w) \<Rightarrow> (r, env\<lparr>world := w\<rparr>))"

text \<open>
  Modelled from the spec: the context factory is the constructor's third argument and
  not among the sources. The spec has it build a fresh context for every dispatch, to
  which the engine adds \<^verbatim>\<open>event\<close> and, when it is not \<^verbatim>\<open>undefined\<close>, \<^verbatim>\<open>eventPayload\<close>
  (lines 295-302). The back-reference to the engine is not part of the value.
\<close>

definition createContext :: val where
  "createContext = Obj []"

definition createContextWithEvent :: "val \<Rightarrow> val \<Rightarrow> val" where
  "createContextWithEvent event eventPayload =
     Obj ((''event'', event) #
          (if eventPayload \<noteq> Undefined then [(''eventPayload'', eventPayload)] else []))"

fun property :: "string \<Rightarrow> val \<Rightarrow> val" where
  "property k (Obj ps) = (case map_of ps k of None \<Rightarrow> Undefined | Some v \<Rightarrow> v)"
| "property k _ = Undefined"

text \<open>
  \<^verbatim>\<open>setTimeout\<close> hands out a fresh handle and the timer is pending until it is cleared;
  \<^verbatim>\<open>clearTimeout\<close> removes a handle from the pending timers.
\<close>

definition setTimeout :: "'w env \<Rightarrow> nat \<times> 'w env" where
  "setTimeout env =
     (nextTimerID env,
      env\<lparr>activeTimers := activeTimers env @ [nextTimerID env],
          nextTimerID := Suc (nextTimerID env)\<rparr>)"

definition clearTimeout :: "nat \<Rightarrow> 'w env \<Rightarrow> 'w env" where
  "clearTimeout t env = env\<lparr>activeTimers := removeAll t (activeTimers env)\<rparr>"

definition invokeCanceler :: "nat \<Rightarrow> 'w env \<Rightarrow> 'w env" where
  "invokeCanceler c env = env\<lparr>noopCompletions := noopCompletions env @ [c]\<rparr>"

definition isStarted :: "'w engine \<Rightarrow> bool" where
  "isStarted eng \<longleftrightarrow> currentState eng \<noteq> stopped"

section \<open>Transition resolver\<close>

text \<open>
  \<^verbatim>\<open>getFirstAllowedTransition\<close> (lines 304-311): the \<^verbatim>\<open>for\<close> loop over the list. An entry
  whose \<^verbatim>\<open>condition\<close> is \<^verbatim>\<open>null\<close> is returned at once; otherwise the condition is called
  with the context and awaited, and a throwing condition rejects the resolution.
\<close>

fun getFirstAllowedTransition ::
  "'w transitionConfig list \<Rightarrow> val \<Rightarrow> 'w env \<Rightarrow> (val + 'w transitionConfig option) \<times> 'w env" where
  "getFirstAllowedTransition [] context env = (Inr None, env)"
| "getFirstAllowedTransition (t # ts) context env =
     (case condition t of
        None \<Rightarrow> (Inr (Some t), env)
      | Some c \<Rightarrow>
          (case callHandler Condition c [context] env of
             (Inl e, env1) \<Rightarrow> (Inl e, env1)
           | (Inr v, env1) \<Rightarrow>
               if truthy v then (Inr (Some t), env1)
               else getFirstAllowedTransition ts context env1))"


text \<open>
  \<^verbatim>\<open>getFirstAllowedTransitionForEvent\<close> (lines 313-336): the transitions of the event
  named by the context come first, the any-event trigger is the fallback.
\<close>

definition getFirstAllowedTransitionForEvent ::
  "val \<Rightarrow> 'w engine \<Rightarrow> 'w env \<Rightarrow> (val + 'w transitionConfig option) \<times> 'w env" where
  "getFirstAllowedTransitionForEvent context eng env =
     (case map_of (states (config eng)) (currentState eng) of
        None \<Rightarrow> (Inr None, env)
      | Some stateConfig \<Rightarrow>
          (case (case map_of (events stateConfig) (property ''event'' context) of
                   None \<Rightarrow> (Inr None, env)
                 | Some eventConfig \<Rightarrow>
                     getFirstAllowedTransition (transitions eventConfig) context env) of
             (Inl e, env1) \<Rightarrow> (Inl e, env1)
           | (Inr (Some transitionConfig), env1) \<Rightarrow> (Inr (Some transitionConfig), env1)
           | (Inr None, env1) \<Rightarrow>
               (case anyEventTrigger stateConfig of
                  None \<Rightarrow> (Inr None, env1)
                | Some trigger \<Rightarrow> getFirstAllowedTransition (transitions trigger) context env1)))"

section \<open>Async actions and timers\<close>

text \<open>
  \<^verbatim>\<open>startAsyncAction\<close> (lines 221-236) submits the outer unit to the scheduler and does
  nothing else at once; \<^verbatim>\<open>startAsyncActions\<close> (lines 212-219) does so for each async
  action of the state, and a throwing \<^verbatim>\<open>enqueue\<close> ends the \<^verbatim>\<open>forEach\<close>.
\<close>

definition startAsyncAction ::
  "'w taskScheduler \<Rightarrow> 'w asyncActionConfig \<Rightarrow> val \<Rightarrow> val \<Rightarrow> 'w env \<Rightarrow> (val + unit) \<times> 'w env" where
  "startAsyncAction sched asyncActionConfig state context env =
     enqueue sched (StartAsyncActionTask asyncActionConfig state context) env"

fun startAsyncActionEach ::
  "'w taskScheduler \<Rightarrow> 'w asyncActionConfig list \<Rightarrow> val \<Rightarrow> val \<Rightarrow> 'w env \<Rightarrow> (val + unit) \<times> 'w env" where
  "startAsyncActionEach sched [] state context env = (Inr (), env)"
| "startAsyncActionEach sched (a # as) state context env =
     (case startAsyncAction sched a state context env of
        (Inl e, env1) \<Rightarrow> (Inl e, env1)
      | (Inr u, env1) \<Rightarrow> startAsyncActionEach sched as state context env1)"

definition startAsyncActions ::
  "'w taskScheduler \<Rightarrow> val \<Rightarrow> val \<Rightarrow> 'w engine \<Rightarrow> 'w env \<Rightarrow> (val + unit) \<times> 'w env" where
  "startAsyncActions sched state context eng env =
     (case map_of (states (config eng)) state of
        None \<Rightarrow> (Inr (), env)
      | Some stateConfig \<Rightarrow> startAsyncActionEach sched (asyncActions stateConfig) state context env)"

text \<open>
  The body of the outer unit (lines 223-234), run by the scheduler: it submits the
  invocation of the action as a second unit and pushes the canceler of this
  registration onto \<^verbatim>\<open>asyncActionCancelers\<close>, creating the array when it is \<^verbatim>\<open>null\<close>.
\<close>

definition startAsyncActionUnit ::
  "'w taskScheduler \<Rightarrow> 'w asyncActionConfig \<Rightarrow> val \<Rightarrow> val \<Rightarrow> 'w engine \<Rightarrow> 'w env \<Rightarrow>
     (val + unit) \<times> 'w engine \<times> 'w env" where
  "startAsyncActionUnit sched asyncActionConfig state context eng env =
     (case enqueue sched
             (InvokeAsyncActionTask asyncActionConfig state context (nextRegistration env))
             (env\<lparr>nextRegistration := Suc (nextRegistration env)\<rparr>) of
        (Inl e, env1) \<Rightarrow> (Inl e, eng, env1)
      | (Inr u, env1) \<Rightarrow>
          (Inr (),
           set_asyncActionCancelers
             (Some ((case asyncActionCancelers eng of None \<Rightarrow> [] | Some cs \<Rightarrow> cs)
                    @ [nextRegistration env])) eng,
           env1))"

text \<open>\<^verbatim>\<open>cancelAsyncActions\<close> (lines 238-243).\<close>

definition cancelAsyncActions :: "'w engine \<Rightarrow> 'w env \<Rightarrow> 'w engine \<times> 'w env" where
  "cancelAsyncActions eng env =
     (case asyncActionCancelers eng of
        None \<Rightarrow> (eng, env)
      | Some cs \<Rightarrow> (set_asyncActionCancelers None eng, fold invokeCanceler cs env))"

text \<open>
  \<^verbatim>\<open>startTimers\<close> (lines 250-259): one \<^verbatim>\<open>setTimeout\<close> per timer of the state, in order;
  the array of handles replaces \<^verbatim>\<open>timerIDs\<close> only when the state has a timer.
  \<^verbatim>\<open>stopTimers\<close> (lines 261-266) clears every stored handle.
\<close>

fun setTimeoutEach :: "'w timerConfig list \<Rightarrow> 'w env \<Rightarrow> nat list \<times> 'w env" where
  "setTimeoutEach [] env = ([], env)"
| "setTimeoutEach (timerConfig # rest) env =
     (case setTimeout env of
        (t, env1) \<Rightarrow> (case setTimeoutEach rest env1 of (ts, env2) \<Rightarrow> (t # ts, env2)))"

definition startTimers :: "val \<Rightarrow> 'w engine \<Rightarrow> 'w env \<Rightarrow> 'w engine \<times> 'w env" where
  "startTimers state eng env =
     (case map_of (states (config eng)) state of
        None \<Rightarrow> (eng, env)
      | Some stateConfig \<Rightarrow>
          if length (timers stateConfig) > 0
          then (case setTimeoutEach (timers stateConfig) env of
                  (ids, env1) \<Rightarrow> (set_timerIDs (Some ids) eng, env1))
          else (eng, env))"

definition stopTimers :: "'w engine \<Rightarrow> 'w env \<Rightarrow> 'w engine \<times> 'w env" where
  "stopTimers eng env =
     (case timerIDs eng of
        None \<Rightarrow> (eng, env)
      | Some ids \<Rightarrow> (set_timerIDs None eng, fold clearTimeout ids env))"


section \<open>State entry\<close>

text \<open>
  The recursion of \<^verbatim>\<open>start\<close> through \<^verbatim>\<open>enterState\<close> and \<^verbatim>\<open>startSubmachines\<close> into the
  child engines ends because a child is either stored in its parent or built from a
  configuration nested in the parent's: \<open>weight\<close> counts both.
\<close>

fun weight :: "'w engine \<Rightarrow> nat" where
  "weight (Engine i cfg cur subs sd tids cs) =
     Suc (size cfg + sum_list (map (\<lambda>kv. weight (snd kv)) subs))"

lemma weight_lookup:
  "map_of subs state = Some child \<Longrightarrow> weight child \<le> sum_list (map (\<lambda>kv. weight (snd kv)) subs)"
  by (induction subs) (auto split: if_splits)

lemma weight_child:
  "map_of (submachines eng) state = Some child \<Longrightarrow> weight child < weight eng"
  using weight_lookup [of "submachines eng" state child] by (cases eng) simp

lemma size_lookup:
  "map_of sts state = Some (stateConfig :: 'w stateConfig) \<Longrightarrow>
   size stateConfig \<le> size_list (size_prod (\<lambda>x. 0) size) sts"
  by (induction sts) (auto split: if_splits)

lemma size_submachine:
  "map_of (states cfg) state = Some stateConfig \<Longrightarrow> submachine stateConfig = RawConfig sub \<Longrightarrow>
   size sub < size cfg"
  using size_lookup [of "states cfg" state stateConfig]
  by (cases cfg; cases stateConfig) simp

lemma weight_new:
  "map_of (states (config eng)) state = Some stateConfig \<Longrightarrow>
   newStateMachine (submachine stateConfig) env = (Inr child, env1) \<Longrightarrow>
   weight child < weight eng"
proof (cases "submachine stateConfig")
  case (RawValue v)
  assume "newStateMachine (submachine stateConfig) env = (Inr child, env1)"
  with RawValue show ?thesis by (simp split: if_splits)
next
  case (RawConfig sub)
  assume "map_of (states (config eng)) state = Some stateConfig"
    and "newStateMachine (submachine stateConfig) env = (Inr child, env1)"
  with RawConfig size_submachine [of "config eng" state stateConfig sub] show ?thesis
    by (cases eng) (auto simp: newEngine_def)
qed

lemma weight_startTimers:
  "weight (fst (startTimers state eng env)) = weight eng"
  by (cases eng) (auto simp: startTimers_def split: option.splits if_splits prod.splits)

text \<open>
  \<^verbatim>\<open>enterState\<close> (lines 161-189) in its three parts: the hook fan-outs of lines 162-176
  (\<open>enterStateHooks\<close>), the body of the \<^verbatim>\<open>try\<close> block of lines 179-181 (\<open>enterStateTry\<close>)
  and the \<^verbatim>\<open>catch\<close> block of lines 183-185 (\<open>enterStateCatch\<close>). A failing step returns
  the engine as it stands at the throw: nothing is undone but what the \<^verbatim>\<open>catch\<close> block
  undoes.
\<close>

definition enterStateHooks :: "val \<Rightarrow> val \<Rightarrow> 'w engine \<Rightarrow> 'w env \<Rightarrow> (val + unit) \<times> 'w env" where
  "enterStateHooks state context eng env =
     (case invokeEach StateEnterHook (stateEnterHooks (global (config eng))) [state, context] env of
        (Inl e, env1) \<Rightarrow> (Inl e, env1)
      | (Inr rs1, env1) \<Rightarrow>
          (case (case map_of (states (config eng)) state of
                   None \<Rightarrow> (Inr [], env1)
                 | Some stateConfig \<Rightarrow>
                     invokeEach EntryAction (entryActions stateConfig) [state, context] env1) of
             (Inl e, env2) \<Rightarrow> (Inl e, env2)
           | (Inr rs2, env2) \<Rightarrow>
               (case (if currentState eng \<noteq> stopped \<and> currentState eng \<noteq> state
                      then invokeEach StateChangeHook (stateChangeHooks (global (config eng)))
                             [currentState eng, state, context] env2
                      else (Inr [], env2)) of
                  (Inl e, env3) \<Rightarrow> (Inl e, env3)
                | (Inr rs3, env3) \<Rightarrow> (Inr (), env3))))"

definition enterStateCatch :: "val \<Rightarrow> 'w engine \<Rightarrow> 'w env \<Rightarrow> (val + unit) \<times> 'w engine \<times> 'w env" where
  "enterStateCatch error eng env =
     (case stopTimers eng env of
        (eng1, env1) \<Rightarrow>
          (case cancelAsyncActions eng1 env1 of (eng2, env2) \<Rightarrow> (Inl error, eng2, env2)))"

text \<open>
  \<^verbatim>\<open>start\<close> (lines 110-115) and \<^verbatim>\<open>startSubmachines\<close> (lines 272-282). The child of a
  state is constructed only when \<^verbatim>\<open>this.submachines\<close> has none for it, and a constructor
  that throws stores nothing; the instance then stored is the one started, and what
  \<^verbatim>\<open>start\<close> did to it stays in the store also when \<^verbatim>\<open>start\<close> fails.
\<close>

function start ::
    "'w taskScheduler \<Rightarrow> 'w engine \<Rightarrow> 'w env \<Rightarrow> (val + unit) \<times> 'w engine \<times> 'w env"
  and enterState ::
    "'w taskScheduler \<Rightarrow> val \<Rightarrow> val \<Rightarrow> 'w engine \<Rightarrow> 'w env \<Rightarrow> (val + unit) \<times> 'w engine \<times> 'w env"
  and enterStateTry ::
    "'w taskScheduler \<Rightarrow> val \<Rightarrow> val \<Rightarrow> 'w engine \<Rightarrow> 'w env \<Rightarrow> (val + unit) \<times> 'w engine \<times> 'w env"
  and startSubmachines ::
    "'w taskScheduler \<Rightarrow> val \<Rightarrow> 'w engine \<Rightarrow> 'w env \<Rightarrow> (val + unit) \<times> 'w engine \<times> 'w env"
where
  "start sched eng env =
     (if \<not> isStarted eng
      then enterState sched (initialState (config eng)) createContext eng env
      else (Inr (), eng, env))"
| "enterState sched state context eng env =
     (case enterStateHooks state context eng env of
        (Inl e, env1) \<Rightarrow> (Inl e, eng, env1)
      | (Inr u, env1) \<Rightarrow>
          (case enterStateTry sched state context eng env1 of
             (Inl error, eng2, env2) \<Rightarrow> enterStateCatch error eng2 env2
           | (Inr u, eng2, env2) \<Rightarrow> (Inr (), set_currentState state eng2, env2)))"
| "enterStateTry sched state context eng env =
     (case startAsyncActions sched state context eng env of
        (Inl e, env1) \<Rightarrow> (Inl e, eng, env1)
      | (Inr u, env1) \<Rightarrow>
          (case startTimers state eng env1 of
             (eng2, env2) \<Rightarrow> startSubmachines sched state eng2 env2))"
| "startSubmachines sched state eng env =
     (case map_of (states (config eng)) state of
        None \<Rightarrow> (Inr (), eng, env)
      | Some stateConfig \<Rightarrow>
          if declared (submachine stateConfig)
          then
            (case map_of (submachines eng) state of
               None \<Rightarrow>
                 (case newStateMachine (submachine stateConfig) env of
                    (Inl e, env1) \<Rightarrow> (Inl e, eng, env1)
                  | (Inr child, env1) \<Rightarrow>
                      (case start sched child env1 of
                         (r, child1, env2) \<Rightarrow>
                           (r, set_submachines (AList.update state child1 (submachines eng)) eng, env2)))
             | Some child \<Rightarrow>
                 (case start sched child env of
                    (r, child1, env1) \<Rightarrow>
                      (r, set_submachines (AList.update state child1 (submachines eng)) eng, env1)))
          else (Inr (), eng, env))"
  by pat_completeness auto
termination
  apply (relation "measure (\<lambda>x. case x of
      Inl (Inl (sched, eng, env)) \<Rightarrow> 4 * weight eng + 3
    | Inl (Inr (sched, state, context, eng, env)) \<Rightarrow> 4 * weight eng + 2
    | Inr (Inl (sched, state, context, eng, env)) \<Rightarrow> 4 * weight eng + 1
    | Inr (Inr (sched, state, eng, env)) \<Rightarrow> 4 * weight eng)")
  apply (auto simp: split_beta weight_startTimers dest: weight_child)
  apply (auto dest: weight_new [OF _ sym])
  done

declare start.simps [simp del] enterState.simps [simp del]
  enterStateTry.simps [simp del] startSubmachines.simps [simp del]

section \<open>State exit\<close>

text \<open>
  \<^verbatim>\<open>stop\<close> (lines 117-123), \<^verbatim>\<open>exitState\<close> (lines 191-210) and \<^verbatim>\<open>stopSubmachines\<close>
  (lines 284-289). The stopped sentinel is assigned after \<^verbatim>\<open>exitState\<close> has returned.
\<close>

function stop :: "'w engine \<Rightarrow> 'w env \<Rightarrow> (val + unit) \<times> 'w engine \<times> 'w env"
  and exitState :: "val \<Rightarrow> 'w engine \<Rightarrow> 'w env \<Rightarrow> (val + unit) \<times> 'w engine \<times> 'w env"
  and stopSubmachines :: "'w engine \<Rightarrow> 'w env \<Rightarrow> (val + unit) \<times> 'w engine \<times> 'w env"
where
  "stop eng env =
     (if isStarted eng
      then (case exitState createContext eng env of
              (Inl e, eng1, env1) \<Rightarrow> (Inl e, eng1, env1)
            | (Inr u, eng1, env1) \<Rightarrow> (Inr (), set_currentState stopped eng1, env1))
      else (Inr (), eng, env))"
| "exitState context eng env =
     (case stopSubmachines eng env of
        (Inl e, eng1, env1) \<Rightarrow> (Inl e, eng1, env1)
      | (Inr u, eng1, env1) \<Rightarrow>
          (case stopTimers eng1 env1 of
             (eng2, env2) \<Rightarrow>
               (case cancelAsyncActions eng2 env2 of
                  (eng3, env3) \<Rightarrow>
                    (case invokeEach StateExitHook (stateExitHooks (global (config eng3)))
                            [currentState eng3, context] env3 of
                       (Inl e, env4) \<Rightarrow> (Inl e, eng3, env4)
                     | (Inr rs1, env4) \<Rightarrow>
                         (case map_of (states (config eng3)) (currentState eng3) of
                            None \<Rightarrow> (Inr (), eng3, env4)
                          | Some stateConfig \<Rightarrow>
                              (case invokeEach ExitAction (exitActions stateConfig)
                                      [currentState eng3, context] env4 of
                                 (Inl e, env5) \<Rightarrow> (Inl e, eng3, env5)
                               | (Inr rs2, env5) \<Rightarrow> (Inr (), eng3, env5)))))))"
| "stopSubmachines eng env =
     (case map_of (submachines eng) (currentState eng) of
        None \<Rightarrow> (Inr (), eng, env)
      | Some child \<Rightarrow>
          (case stop child env of
             (r, child1, env1) \<Rightarrow>
               (r, set_submachines (AList.update (currentState eng) child1 (submachines eng)) eng,
                env1)))"
  by pat_completeness auto
termination
  apply (relation "measure (\<lambda>x. case x of
      Inl (eng, env) \<Rightarrow> 3 * weight eng + 2
    | Inr (Inl (context, eng, env)) \<Rightarrow> 3 * weight eng + 1
    | Inr (Inr (eng, env)) \<Rightarrow> 3 * weight eng)")
  apply (auto dest: weight_child)
  done

declare stop.simps [simp del] exitState.simps [simp del] stopSubmachines.simps [simp del]

text \<open>\<^verbatim>\<open>getSubmachine\<close> (lines 125-127); \<open>None\<close> stands for \<^verbatim>\<open>null\<close> and \<^verbatim>\<open>undefined\<close>.\<close>

definition getSubmachine :: "'w engine \<Rightarrow> 'w engine option" where
  "getSubmachine eng =
     (if isStarted eng then map_of (submachines eng) (currentState eng) else None)"

section \<open>Transition execution and event handling\<close>

text \<open>\<^verbatim>\<open>const nextState\<close> of \<^verbatim>\<open>executeTransition\<close> (lines 134-136).\<close>

definition nextStateOf :: "'w transitionConfig \<Rightarrow> 'w engine \<Rightarrow> val" where
  "nextStateOf transitionConfig eng =
     (if targetState transitionConfig \<noteq> Null then targetState transitionConfig
      else currentState eng)"

text \<open>The value of line 158: the array of results, or its element at index 0.\<close>

definition transitionResult :: "val list \<Rightarrow> val" where
  "transitionResult actionRetvals =
     (if length actionRetvals > 1 then Arr actionRetvals else first actionRetvals)"

text \<open>\<^verbatim>\<open>executeTransition\<close> (lines 129-159).\<close>

definition executeTransition ::
  "'w taskScheduler \<Rightarrow> 'w transitionConfig \<Rightarrow> val \<Rightarrow> 'w engine \<Rightarrow> 'w env \<Rightarrow>
     (val + val) \<times> 'w engine \<times> 'w env" where
  "executeTransition sched transitionConfig context eng env =
     (case (if \<not> isInternal transitionConfig \<and> \<not> ignore transitionConfig
            then exitState context eng env
            else (Inr (), eng, env)) of
        (Inl e, eng1, env1) \<Rightarrow> (Inl e, eng1, env1)
      | (Inr u, eng1, env1) \<Rightarrow>
          (case (if \<not> ignore transitionConfig
                 then invokeEach TransitionHook (transitionHooks (global (config eng1)))
                        [currentState eng1, nextStateOf transitionConfig eng1, context] env1
                 else (Inr [], env1)) of
             (Inl e, env2) \<Rightarrow> (Inl e, eng1, env2)
           | (Inr rs, env2) \<Rightarrow>
               (case invokeEach TransitionAction (actions transitionConfig)
                       [currentState eng1, nextStateOf transitionConfig eng1, context] env2 of
                  (Inl e, env3) \<Rightarrow> (Inl e, eng1, env3)
                | (Inr actionRetvals, env3) \<Rightarrow>
                    (case (if \<not> isInternal transitionConfig \<and> \<not> ignore transitionConfig
                           then enterState sched (nextStateOf transitionConfig eng1) context eng1 env3
                           else (Inr (), eng1, env3)) of
                       (Inl e, eng4, env4) \<Rightarrow> (Inl e, eng4, env4)
                     | (Inr u, eng4, env4) \<Rightarrow>
                         (Inr (transitionResult actionRetvals), eng4, env4)))))"

text \<open>
  \<^verbatim>\<open>handleUnhandledEvent\<close> (lines 72-104). Each hook is wrapped so that what it throws
  comes back as the pair of the private marker and the thrown value (lines 77-83).
\<close>

definition catching :: "'w handler \<Rightarrow> 'w handler" where
  "catching handler =
     (\<lambda>args w. case handler args w of
                  (Inl e, w1) \<Rightarrow> (Inr (Arr [symHandlerThrewError, e]), w1)
                | (Inr v, w1) \<Rightarrow> (Inr v, w1))"

definition isHandlerSuccess :: "val \<Rightarrow> bool" where
  "isHandlerSuccess result \<longleftrightarrow> \<not> isArray result \<or> index0 result \<noteq> symHandlerThrewError"

definition isHandlerFailure :: "val \<Rightarrow> bool" where
  "isHandlerFailure result \<longleftrightarrow> isArray result \<and> index0 result = symHandlerThrewError"

definition handleUnhandledEvent ::
  "val \<Rightarrow> val \<Rightarrow> 'w engine \<Rightarrow> 'w env \<Rightarrow> (val + val) \<times> 'w engine \<times> 'w env" where
  "handleUnhandledEvent event eventPayload eng env =
     (let context = createContextWithEvent event eventPayload in
      if length (unhandledEventHooks (global (config eng))) > 0
      then
        (case invokeEach UnhandledEventHook
                (map catching (unhandledEventHooks (global (config eng))))
                [event, currentState eng, context] env of
           (Inl e, env1) \<Rightarrow> (Inl e, eng, env1)
         | (Inr results, env1) \<Rightarrow>
             (let handlerResults = filter (\<lambda>x. x \<noteq> ignoreHandlerResult) results;
                  handlerSuccesses = filter isHandlerSuccess handlerResults;
                  handlerFailures = filter isHandlerFailure handlerResults
              in if length handlerFailures > 0 then (Inl (first handlerFailures), eng, env1)
                 else if length handlerSuccesses > 0
                 then (Inr (first (filter (\<lambda>x. x \<noteq> Undefined) handlerSuccesses)), eng, env1)
                 else (Inl (UnhandledEventError event (currentState eng) context), eng, env1)))
      else (Inl (UnhandledEventError event (currentState eng) context), eng, env))"

text \<open>\<^verbatim>\<open>handle\<close> (lines 58-70) and \<^verbatim>\<open>canHandle\<close> (lines 49-56).\<close>

definition handle ::
  "'w taskScheduler \<Rightarrow> val \<Rightarrow> val \<Rightarrow> 'w engine \<Rightarrow> 'w env \<Rightarrow> (val + val) \<times> 'w engine \<times> 'w env" where
  "handle sched event eventPayload eng env =
     (if \<not> isStarted eng
      then (Inl (StateMachineNotStartedError
                   ''Cannot handle events before starting the state machine!''),
            eng, env)
      else
        (case getFirstAllowedTransitionForEvent
                (createContextWithEvent event eventPayload) eng env of
           (Inl e, env1) \<Rightarrow> (Inl e, eng, env1)
         | (Inr (Some transitionConfig), env1) \<Rightarrow>
             executeTransition sched transitionConfig
               (createContextWithEvent event eventPayload) eng env1
         | (Inr None, env1) \<Rightarrow> handleUnhandledEvent event eventPayload eng env1))"

definition canHandle :: "val \<Rightarrow> val \<Rightarrow> 'w engine \<Rightarrow> 'w env \<Rightarrow> (val + bool) \<times> 'w env" where
  "canHandle event eventPayload eng env =
     (if \<not> isStarted eng then (Inr False, env)
      else
        (case getFirstAllowedTransitionForEvent
                (createContextWithEvent event eventPayload) eng env of
           (Inl e, env1) \<Rightarrow> (Inl e, env1)
         | (Inr r, env1) \<Rightarrow> (Inr (r \<noteq> None), env1)))"

text \<open>
  \<^verbatim>\<open>executeTrigger\<close> (lines 338-348) submits a unit of work; \<open>executeTriggerUnit\<close> is the
  body of that unit, which the scheduler runs when its turn comes. Timer fires and
  completions of async actions reach the engine through it.
\<close>

definition executeTrigger ::
  "'w taskScheduler \<Rightarrow> ('w, 'z) triggerConfig_scheme \<Rightarrow> val \<Rightarrow> 'w env \<Rightarrow> (val + unit) \<times> 'w env" where
  "executeTrigger sched triggerConfig context env =
     enqueue sched (ExecuteTriggerTask (transitions triggerConfig) context) env"

definition executeTriggerUnit ::
  "'w taskScheduler \<Rightarrow> ('w, 'z) triggerConfig_scheme \<Rightarrow> val \<Rightarrow> 'w engine \<Rightarrow> 'w env \<Rightarrow>
     (val + val) \<times> 'w engine \<times> 'w env" where
  "executeTriggerUnit sched triggerConfig context eng env =
     (case getFirstAllowedTransition (transitions triggerConfig) context env of
        (Inl e, env1) \<Rightarrow> (Inl e, eng, env1)
      | (Inr None, env1) \<Rightarrow> (Inr Undefined, eng, env1)
      | (Inr (Some transitionConfig), env1) \<Rightarrow>
          executeTransition sched transitionConfig context eng env1)"

section \<open>The resolver's contract in the words of the specification\<close>

text \<open>
  The specification reads the resolver as: walk the list in order; an entry without a
  condition is selected at once; otherwise its condition is awaited and the entry is
  selected when the result is truthy. \<open>declined\<close> says that every entry of a list has a
  condition that, called in its turn, returned a falsy value; \<open>accepted\<close> says that an
  entry is selected in the environment reached before it.
\<close>

inductive declined :: "'w transitionConfig list \<Rightarrow> val \<Rightarrow> 'w env \<Rightarrow> 'w env \<Rightarrow> bool" where
  declined_Nil: "declined [] context env env"
| declined_Cons: "condition t = Some c \<Longrightarrow> callHandler Condition c [context] env = (Inr v, env1) \<Longrightarrow>
     \<not> truthy v \<Longrightarrow> declined ts context env1 env2 \<Longrightarrow> declined (t # ts) context env env2"

definition accepted :: "'w transitionConfig \<Rightarrow> val \<Rightarrow> 'w env \<Rightarrow> 'w env \<Rightarrow> bool" where
  "accepted t context env env' \<longleftrightarrow>
     (case condition t of
        None \<Rightarrow> env' = env
      | Some c \<Rightarrow> (\<exists>v. callHandler Condition c [context] env = (Inr v, env') \<and> truthy v))"

section \<open>Invariants and identities\<close>

text \<open>
  \<open>currentStateValid\<close> is the invariant of the specification: the current state is the
  stopped sentinel or a key of \<^verbatim>\<open>config.states\<close>. \<open>configuredTransitions\<close> collects every
  transition a configuration holds (of events, of the any-event trigger, of timers and
  of the triggers of async actions), and \<open>targetsConfigured\<close> says that the initial
  state and every target state that is not \<^verbatim>\<open>null\<close> are keys of \<^verbatim>\<open>config.states\<close>.
  \<open>childIdentity\<close> is the object identity of the child engine stored for a state.
  \<open>caught\<close> is the result the wrapper of lines 77-83 gives for a settled hook.
\<close>

definition currentStateValid :: "'w engine \<Rightarrow> bool" where
  "currentStateValid eng \<longleftrightarrow>
     currentState eng = stopped \<or> currentState eng \<in> fst ` set (states (config eng))"

definition transitionsOfState :: "'w stateConfig \<Rightarrow> 'w transitionConfig list" where
  "transitionsOfState stateConfig =
     concat (map (\<lambda>kv. transitions (snd kv)) (events stateConfig)) @
     (case anyEventTrigger stateConfig of None \<Rightarrow> [] | Some trigger \<Rightarrow> transitions trigger) @
     concat (map transitions (timers stateConfig)) @
     concat (map (\<lambda>a. transitions (successTrigger a) @ transitions (failureTrigger a))
                 (asyncActions stateConfig))"

definition configuredTransitions :: "'w config \<Rightarrow> 'w transitionConfig list" where
  "configuredTransitions cfg = concat (map (\<lambda>kv. transitionsOfState (snd kv)) (states cfg))"

definition targetsConfigured :: "'w config \<Rightarrow> bool" where
  "targetsConfigured cfg \<longleftrightarrow>
     initialState cfg \<in> fst ` set (states cfg) \<and>
     (\<forall>t \<in> set (configuredTransitions cfg).
        targetState t = Null \<or> targetState t \<in> fst ` set (states cfg))"

definition childIdentity :: "'w engine \<Rightarrow> val \<Rightarrow> nat option" where
  "childIdentity eng state = map_option oid (map_of (submachines eng) state)"

definition caught :: "val + val \<Rightarrow> val" where
  "caught out = (case out of Inl e \<Rightarrow> Arr [symHandlerThrewError, e] | Inr v \<Rightarrow> v)"

section \<open>Example machines\<close>

text \<open>
  The machines the theorems below are run on. Their world is a counter of handler
  calls. The first is the scenario of the specification: state idle goes to running
  on the event go, and running carries a timer back to idle.
\<close>

definition exampleEnv :: "nat env" where
  "exampleEnv = \<lparr>world = 0, trace = [], activeTimers = [], nextTimerID = 0, noopCompletions = [],
           nextRegistration = 0, nextObjectID = 0\<rparr>"

definition exampleScheduler :: "nat taskScheduler" where
  "exampleScheduler = (\<lambda>task w. (Inr (), w))"

definition returning :: "val \<Rightarrow> nat handler" where
  "returning v = (\<lambda>args w. (Inr v, Suc w))"

definition throwing :: "val \<Rightarrow> nat handler" where
  "throwing e = (\<lambda>args w. (Inl e, Suc w))"

definition exampleHooks :: "nat globalConfig" where
  "exampleHooks = \<lparr>unhandledEventHooks = [], transitionHooks = [returning Undefined],
     stateEnterHooks = [returning Undefined], stateExitHooks = [returning Undefined],
     stateChangeHooks = [returning Undefined]\<rparr>"

definition exampleTransition :: "val \<Rightarrow> nat transitionConfig" where
  "exampleTransition s = \<lparr>condition = None, actions = [], targetState = s, isInternal = False, ignore = False\<rparr>"

definition exampleConfig :: "nat config" where
  "exampleConfig = Config (Str ''idle'') exampleHooks
     [(Str ''idle'',
       StateConfig [returning Undefined] [returning Undefined]
         [(Str ''go'', \<lparr>transitions = [exampleTransition (Str ''running'')]\<rparr>),
          (Str ''compute'', \<lparr>transitions =
             [(exampleTransition Null)\<lparr>actions := [returning (Num 1), returning (Num 2)], ignore := True\<rparr>]\<rparr>),
          (Str ''again'', \<lparr>transitions = [exampleTransition Null]\<rparr>)]
         None [] [] (RawValue Undefined)),
      (Str ''running'',
       StateConfig [] [] [] None []
         [\<lparr>transitions = [exampleTransition (Str ''idle'')], timeout = 10\<rparr>] (RawValue Undefined))]"

text \<open>The example engine, started: it is in state idle.\<close>

definition exampleEngine :: "nat engine" where
  "exampleEngine = Engine 0 exampleConfig (Str ''idle'') []
     [(Str ''idle'', Obj []), (Str ''running'', Obj [])] None None"

definition exampleCompute :: "nat transitionConfig" where
  "exampleCompute = \<lparr>condition = None, actions = [returning (Num 1), returning (Num 2)],
     targetState = Null, isInternal = False, ignore = True\<rparr>"

definition exampleChild :: "nat handler list \<Rightarrow> nat config" where
  "exampleChild enterHooks = Config (Str ''inner'')
     \<lparr>unhandledEventHooks = [], transitionHooks = [], stateEnterHooks = enterHooks,
      stateExitHooks = [], stateChangeHooks = []\<rparr>
     [(Str ''inner'', StateConfig [] [] [] None [] [] (RawValue Undefined))]"

definition exampleParent :: "nat handler list \<Rightarrow> nat rawConfig \<Rightarrow> nat config" where
  "exampleParent exitHooks child = Config (Str ''busy'')
     \<lparr>unhandledEventHooks = [], transitionHooks = [], stateEnterHooks = [],
      stateExitHooks = exitHooks, stateChangeHooks = []\<rparr>
     [(Str ''busy'',
       StateConfig [] [] [(Str ''retry'', \<lparr>transitions = [exampleTransition (Str ''busy'')]\<rparr>)] None []
         [\<lparr>transitions = [], timeout = 5\<rparr>]
         child)]"

definition exampleBusyEngine :: "nat engine" where
  "exampleBusyEngine = Engine 0 (exampleParent [throwing (Str ''exit failed'')] (RawConfig (exampleChild []))) (Str ''busy'')
     [(Str ''busy'', Engine 1 (exampleChild []) (Str ''inner'') [] [(Str ''inner'', Obj [])] None None)]
     [(Str ''busy'', Obj [])] (Some [0]) None"

definition exampleBusyEnv :: "nat env" where
  "exampleBusyEnv = exampleEnv\<lparr>activeTimers := [0], nextTimerID := 1, nextObjectID := 2\<rparr>"

definition exampleFreshEngine :: "nat engine" where
  "exampleFreshEngine = Engine 0
     (exampleParent [] (RawConfig (exampleChild [throwing (Str ''boom'')]))) stopped []
     [(Str ''busy'', Obj [])] None None"

definition exampleMalformedEngine :: "nat engine" where
  "exampleMalformedEngine = Engine 0 (exampleParent [] (RawValue (Obj []))) stopped []
     [(Str ''busy'', Obj [])] None None"

definition exampleA :: "nat transitionConfig" where
  "exampleA = \<lparr>condition = Some (returning (Bool False)), actions = [], targetState = Str ''a'',
     isInternal = False, ignore = False\<rparr>"

definition exampleB :: "nat transitionConfig" where
  "exampleB = \<lparr>condition = Some (returning (Bool True)), actions = [], targetState = Str ''b'',
     isInternal = False, ignore = False\<rparr>"

definition exampleC :: "nat transitionConfig" where
  "exampleC = \<lparr>condition = None, actions = [], targetState = Str ''c'',
     isInternal = False, ignore = False\<rparr>"

definition exampleLostEngine :: "nat engine" where
  "exampleLostEngine = Engine 0
     (Config (Str ''idle'')
        \<lparr>unhandledEventHooks = [], transitionHooks = [], stateEnterHooks = [],
         stateExitHooks = [], stateChangeHooks = []\<rparr>
        [(Str ''idle'',
          StateConfig [] [] [(Str ''lost'', \<lparr>transitions = [exampleTransition Undefined]\<rparr>)]
            None [] [] (RawValue Undefined))])
     (Str ''idle'') [] [(Str ''idle'', Obj [])] None None"

definition exampleNestedFresh :: "nat engine" where
  "exampleNestedFresh = Engine 0 (exampleParent [] (RawConfig (exampleChild []))) stopped []
     [(Str ''busy'', Obj [])] None None"

definition exampleNestedEngine :: "nat engine" where
  "exampleNestedEngine = Engine 0 (exampleParent [] (RawConfig (exampleChild []))) (Str ''busy'')
     [(Str ''busy'', Engine 1 (exampleChild []) (Str ''inner'') [] [(Str ''inner'', Obj [])] None None)]
     [(Str ''busy'', Obj [])] (Some [0]) None"

definition exampleUnconfigured :: "nat config" where
  "exampleUnconfigured = Config (Str ''nowhere'')
     \<lparr>unhandledEventHooks = [], transitionHooks = [], stateEnterHooks = [],
      stateExitHooks = [], stateChangeHooks = []\<rparr> []"

definition exampleHookedEngine :: "nat handler list \<Rightarrow> nat engine" where
  "exampleHookedEngine hooks = Engine 0
     (Config (Str ''idle'')
        \<lparr>unhandledEventHooks = hooks, transitionHooks = [], stateEnterHooks = [],
         stateExitHooks = [], stateChangeHooks = []\<rparr>
        [(Str ''idle'', StateConfig [] [] [] None [] [] (RawValue Undefined))])
     (Str ''idle'') [] [(Str ''idle'', Obj [])] None None"

lemmas example_defs = exampleEnv_def exampleScheduler_def returning_def throwing_def
  exampleHooks_def exampleTransition_def exampleConfig_def exampleEngine_def exampleCompute_def
  exampleChild_def exampleParent_def exampleBusyEngine_def exampleBusyEnv_def
  exampleFreshEngine_def exampleMalformedEngine_def exampleLostEngine_def
  exampleNestedFresh_def exampleA_def exampleB_def exampleC_def exampleNestedEngine_def
  exampleUnconfigured_def exampleHookedEngine_def

lemmas engine_defs = newEngine_def start.simps enterState.simps enterStateHooks_def
    enterStateTry.simps enterStateCatch_def startSubmachines.simps isStarted_def stopped_def invokeEach_def
    startAsyncActions_def startAsyncAction_def enqueue_def startTimers_def handle_def createContext_def createContextWithEvent_def
    getFirstAllowedTransitionForEvent_def executeTransition_def exitState.simps stopSubmachines.simps stop.simps
    stopTimers_def cancelAsyncActions_def nextStateOf_def transitionResult_def setTimeout_def callHandler_def
    clearTimeout_def invokeCanceler_def handleUnhandledEvent_def catching_def isHandlerSuccess_def isHandlerFailure_def
    symHandlerThrewError_def ignoreHandlerResult_def executeTriggerUnit_def Let_def

section \<open>Fields, environment and frames\<close>

lemma set_currentState_sel [simp]:
  "oid (set_currentState s eng) = oid eng"
  "config (set_currentState s eng) = config eng"
  "currentState (set_currentState s eng) = s"
  "submachines (set_currentState s eng) = submachines eng"
  "stateData (set_currentState s eng) = stateData eng"
  "timerIDs (set_currentState s eng) = timerIDs eng"
  "asyncActionCancelers (set_currentState s eng) = asyncActionCancelers eng"
  by (cases eng; simp)+

lemma set_submachines_sel [simp]:
  "oid (set_submachines m eng) = oid eng"
  "config (set_submachines m eng) = config eng"
  "currentState (set_submachines m eng) = currentState eng"
  "submachines (set_submachines m eng) = m"
  "stateData (set_submachines m eng) = stateData eng"
  "timerIDs (set_submachines m eng) = timerIDs eng"
  "asyncActionCancelers (set_submachines m eng) = asyncActionCancelers eng"
  by (cases eng; simp)+

lemma set_timerIDs_sel [simp]:
  "oid (set_timerIDs t eng) = oid eng"
  "config (set_timerIDs t eng) = config eng"
  "currentState (set_timerIDs t eng) = currentState eng"
  "submachines (set_timerIDs t eng) = submachines eng"
  "stateData (set_timerIDs t eng) = stateData eng"
  "timerIDs (set_timerIDs t eng) = t"
  "asyncActionCancelers (set_timerIDs t eng) = asyncActionCancelers eng"
  by (cases eng; simp)+

lemma set_asyncActionCancelers_sel [simp]:
  "oid (set_asyncActionCancelers c eng) = oid eng"
  "config (set_asyncActionCancelers c eng) = config eng"
  "currentState (set_asyncActionCancelers c eng) = currentState eng"
  "submachines (set_asyncActionCancelers c eng) = submachines eng"
  "stateData (set_asyncActionCancelers c eng) = stateData eng"
  "timerIDs (set_asyncActionCancelers c eng) = timerIDs eng"
  "asyncActionCancelers (set_asyncActionCancelers c eng) = c"
  by (cases eng; simp)+

text \<open>What the environment keeps through handler calls.\<close>

lemma callHandler_env:
  "callHandler k h args env = (r, env') \<Longrightarrow>
     trace env' = trace env @ [(k, args)] \<and> activeTimers env' = activeTimers env \<and>
     nextTimerID env' = nextTimerID env \<and> noopCompletions env' = noopCompletions env \<and>
     nextRegistration env' = nextRegistration env \<and> nextObjectID env' = nextObjectID env"
  by (auto simp: callHandler_def split: prod.splits)

lemma settleEach_env:
  "settleEach k hs args env = (outs, env') \<Longrightarrow>
     length outs = length hs \<and>
     trace env' = trace env @ replicate (length hs) (k, args) \<and> activeTimers env' = activeTimers env \<and>
     nextTimerID env' = nextTimerID env \<and> noopCompletions env' = noopCompletions env \<and>
     nextRegistration env' = nextRegistration env \<and> nextObjectID env' = nextObjectID env"
proof (induction hs arbitrary: env outs env')
  case Nil
  then show ?case by simp
next
  case (Cons h hs)
  obtain r env1 where c: "callHandler k h args env = (r, env1)"
    by (cases "callHandler k h args env")
  obtain rs env2 where s: "settleEach k hs args env1 = (rs, env2)"
    by (cases "settleEach k hs args env1")
  from Cons.prems c s have eq: "outs = r # rs" "env' = env2" by auto
  from Cons.IH [OF s] callHandler_env [OF c] eq show ?case
    by (simp add: replicate_append_same)
qed

lemma collect_Inr:
  "collect outs = Inr rs \<Longrightarrow> outs = map Inr rs"
  by (induction outs arbitrary: rs rule: collect.induct) (auto split: sum.splits)

lemma invokeEach_Inr:
  "invokeEach k hs args env = (Inr rs, env') \<Longrightarrow>
     settleEach k hs args env = (map Inr rs, env') \<and> length rs = length hs"
  using settleEach_env [of k hs args env]
  by (auto simp: invokeEach_def split: prod.splits dest!: collect_Inr)

text \<open>Timers and cancelers.\<close>

lemma fold_clearTimeout:
  "activeTimers (fold clearTimeout ids env) = filter (\<lambda>t. t \<notin> set ids) (activeTimers env)"
  by (induction ids arbitrary: env) (auto simp: clearTimeout_def removeAll_filter_not_eq intro: filter_cong)

lemma fold_invokeCanceler:
  "noopCompletions (fold invokeCanceler cs env) = noopCompletions env @ cs"
  by (induction cs arbitrary: env) (auto simp: invokeCanceler_def)

lemma fold_clearTimeout_env:
  "world (fold clearTimeout ids env) = world env \<and> trace (fold clearTimeout ids env) = trace env \<and>
   nextTimerID (fold clearTimeout ids env) = nextTimerID env \<and>
   noopCompletions (fold clearTimeout ids env) = noopCompletions env \<and>
   nextRegistration (fold clearTimeout ids env) = nextRegistration env \<and>
   nextObjectID (fold clearTimeout ids env) = nextObjectID env"
  by (induction ids arbitrary: env) (auto simp: clearTimeout_def)

lemma fold_invokeCanceler_env:
  "world (fold invokeCanceler cs env) = world env \<and> trace (fold invokeCanceler cs env) = trace env \<and>
   activeTimers (fold invokeCanceler cs env) = activeTimers env \<and>
   nextTimerID (fold invokeCanceler cs env) = nextTimerID env \<and>
   nextRegistration (fold invokeCanceler cs env) = nextRegistration env \<and>
   nextObjectID (fold invokeCanceler cs env) = nextObjectID env"
  by (induction cs arbitrary: env) (auto simp: invokeCanceler_def)

lemma stopTimers_eq:
  "stopTimers eng env = (eng', env') \<Longrightarrow>
     timerIDs eng' = None \<and> currentState eng' = currentState eng \<and> config eng' = config eng \<and>
     oid eng' = oid eng \<and> submachines eng' = submachines eng \<and>
     asyncActionCancelers eng' = asyncActionCancelers eng \<and>
     activeTimers env' =
       filter (\<lambda>t. t \<notin> set (case timerIDs eng of None \<Rightarrow> [] | Some ids \<Rightarrow> ids)) (activeTimers env) \<and>
     noopCompletions env' = noopCompletions env \<and> trace env' = trace env \<and>
     nextObjectID env' = nextObjectID env"
  by (auto simp: stopTimers_def fold_clearTimeout fold_clearTimeout_env split: option.splits)

lemma cancelAsyncActions_eq:
  "cancelAsyncActions eng env = (eng', env') \<Longrightarrow>
     asyncActionCancelers eng' = None \<and> currentState eng' = currentState eng \<and>
     config eng' = config eng \<and> oid eng' = oid eng \<and> submachines eng' = submachines eng \<and>
     timerIDs eng' = timerIDs eng \<and>
     noopCompletions env' =
       noopCompletions env @ (case asyncActionCancelers eng of None \<Rightarrow> [] | Some cs \<Rightarrow> cs) \<and>
     activeTimers env' = activeTimers env \<and> trace env' = trace env \<and>
     nextObjectID env' = nextObjectID env"
  by (auto simp: cancelAsyncActions_def fold_invokeCanceler fold_invokeCanceler_env split: option.splits)

lemma startTimers_frame:
  "startTimers state eng env = (eng', env') \<Longrightarrow>
     currentState eng' = currentState eng \<and> config eng' = config eng \<and> oid eng' = oid eng \<and>
     submachines eng' = submachines eng \<and> asyncActionCancelers eng' = asyncActionCancelers eng"
  by (auto simp: startTimers_def split: option.splits if_splits prod.splits)

lemma startSubmachines_frame:
  "startSubmachines sched state eng env = (r, eng', env') \<Longrightarrow>
     currentState eng' = currentState eng \<and> config eng' = config eng \<and> oid eng' = oid eng \<and>
     timerIDs eng' = timerIDs eng \<and> asyncActionCancelers eng' = asyncActionCancelers eng"
  by (auto simp: startSubmachines.simps split: option.splits prod.splits sum.splits if_splits)

lemma enterStateTry_frame:
  "enterStateTry sched state context eng env = (r, eng', env') \<Longrightarrow>
     currentState eng' = currentState eng \<and> config eng' = config eng \<and> oid eng' = oid eng \<and>
     asyncActionCancelers eng' = asyncActionCancelers eng"
  by (auto simp: enterStateTry.simps split: prod.splits sum.splits
           dest!: startTimers_frame startSubmachines_frame)

lemma enterStateCatch_eq:
  "enterStateCatch error eng env = (r, eng', env') \<Longrightarrow>
     r = Inl error \<and> timerIDs eng' = None \<and> asyncActionCancelers eng' = None \<and>
     currentState eng' = currentState eng \<and> config eng' = config eng \<and> oid eng' = oid eng \<and>
     submachines eng' = submachines eng"
  by (auto simp: enterStateCatch_def split: prod.splits dest!: stopTimers_eq cancelAsyncActions_eq)

lemma enterState_frame:
  "enterState sched state context eng env = (r, eng', env') \<Longrightarrow>
     config eng' = config eng \<and> oid eng' = oid eng \<and>
     currentState eng' = (case r of Inl e \<Rightarrow> currentState eng | Inr u \<Rightarrow> state)"
  by (auto simp: enterState.simps split: prod.splits sum.splits
           dest!: enterStateTry_frame enterStateCatch_eq)

lemma start_frame:
  "start sched eng env = (r, eng', env') \<Longrightarrow>
     config eng' = config eng \<and> oid eng' = oid eng \<and>
     currentState eng' =
       (if isStarted eng then currentState eng
        else case r of Inl e \<Rightarrow> currentState eng | Inr u \<Rightarrow> initialState (config eng))"
  by (auto simp: start.simps split: if_splits dest!: enterState_frame)

lemma stopSubmachines_frame:
  "stopSubmachines eng env = (r, eng', env') \<Longrightarrow>
     currentState eng' = currentState eng \<and> config eng' = config eng \<and> oid eng' = oid eng \<and>
     timerIDs eng' = timerIDs eng \<and> asyncActionCancelers eng' = asyncActionCancelers eng"
  by (auto simp: stopSubmachines.simps split: option.splits prod.splits)

lemma exitState_frame:
  "exitState context eng env = (r, eng', env') \<Longrightarrow>
     currentState eng' = currentState eng \<and> config eng' = config eng \<and> oid eng' = oid eng"
  by (auto simp: exitState.simps split: prod.splits sum.splits option.splits
           dest!: stopSubmachines_frame stopTimers_eq cancelAsyncActions_eq)

lemma stop_frame:
  "stop eng env = (r, eng', env') \<Longrightarrow>
     config eng' = config eng \<and> oid eng' = oid eng \<and>
     currentState eng' =
       (if isStarted eng then (case r of Inl e \<Rightarrow> currentState eng | Inr u \<Rightarrow> stopped)
        else currentState eng)"
  by (auto simp: stop.simps split: if_splits prod.splits sum.splits dest!: exitState_frame)

lemma executeTransition_frame:
  "executeTransition sched tc context eng env = (r, eng', env') \<Longrightarrow>
     config eng' = config eng \<and> oid eng' = oid eng \<and>
     (currentState eng' = currentState eng \<or>
      (\<not> isInternal tc \<and> \<not> ignore tc \<and> currentState eng' = targetState tc \<and> targetState tc \<noteq> Null))"
  by (auto simp: executeTransition_def nextStateOf_def split: if_splits prod.splits sum.splits
           dest!: exitState_frame enterState_frame)

section \<open>The resolver\<close>

lemma callHandler_trace:
  "callHandler k h args env = (r, env') \<Longrightarrow> trace env' = trace env @ [(k, args)]"
  by (auto simp: callHandler_def split: prod.splits)

lemma declined_trace:
  "declined ts context env env' \<Longrightarrow> trace env' = trace env @ replicate (length ts) (Condition, [context])"
  by (induction rule: declined.induct) (auto dest!: callHandler_trace simp: replicate_append_same)

lemma sel_imp:
  "getFirstAllowedTransition ts context env = (Inr (Some t), env') \<Longrightarrow>
     \<exists>pre post env1. ts = pre @ t # post \<and> declined pre context env env1 \<and> accepted t context env1 env'"
proof (induction ts arbitrary: env)
  case Nil
  then show ?case by simp
next
  case (Cons a ts)
  show ?case
  proof (cases "condition a")
    case None
    with Cons.prems have "a = t" "env' = env" by auto
    then have "a # ts = [] @ t # ts \<and> declined [] context env env \<and> accepted t context env env'"
      using None by (simp add: declined_Nil accepted_def)
    then show ?thesis by blast
  next
    case (Some c)
    obtain r env1 where call: "callHandler Condition c [context] env = (r, env1)"
      by (cases "callHandler Condition c [context] env")
    show ?thesis
    proof (cases r)
      case (Inl e)
      with Cons.prems Some call show ?thesis by simp
    next
      case (Inr v)
      show ?thesis
      proof (cases "truthy v")
        case True
        with Cons.prems Some call Inr have "a = t" "env' = env1" by auto
        then have "a # ts = [] @ t # ts \<and> declined [] context env env \<and> accepted t context env env'"
          using Some call Inr True by (auto simp: declined_Nil accepted_def)
        then show ?thesis by blast
      next
        case False
        with Cons.prems Some call Inr
        have "getFirstAllowedTransition ts context env1 = (Inr (Some t), env')" by simp
        from Cons.IH [OF this] obtain pre post env2 where
          *: "ts = pre @ t # post" "declined pre context env1 env2" "accepted t context env2 env'"
          by blast
        have "declined (a # pre) context env env2"
          using Some call Inr False *(2) by (auto intro: declined_Cons)
        with * have "a # ts = (a # pre) @ t # post \<and> declined (a # pre) context env env2 \<and> accepted t context env2 env'"
          by simp
        then show ?thesis by blast
      qed
    qed
  qed
qed

lemma imp_sel:
  "declined pre context env env1 \<Longrightarrow> accepted t context env1 env' \<Longrightarrow>
   getFirstAllowedTransition (pre @ t # post) context env = (Inr (Some t), env')"
  by (induction rule: declined.induct) (auto simp: accepted_def split: option.splits)

lemma none_iff:
  "getFirstAllowedTransition ts context env = (Inr None, env') \<longleftrightarrow> declined ts context env env'"
proof
  show "getFirstAllowedTransition ts context env = (Inr None, env') \<Longrightarrow> declined ts context env env'"
  proof (induction ts arbitrary: env)
    case Nil then show ?case by (simp add: declined_Nil)
  next
    case (Cons a ts)
    then show ?case
      by (auto split: option.splits prod.splits sum.splits if_splits intro: declined_Cons)
  qed
next
  show "declined ts context env env' \<Longrightarrow> getFirstAllowedTransition ts context env = (Inr None, env')"
    by (induction rule: declined.induct) auto
qed

text \<open>
  C6: for every ordered list of transitions and every context, the resolver returns the
  first entry in list order that has no condition or whose awaited condition is truthy;
  conditions are evaluated one after the other and only up to the selected entry, and
  the resolver returns no match when the list is exhausted. The trace grows by one
  condition call per declined entry, and by one more when the selected entry has a
  condition.
\<close>

theorem C6_first_allowed_transition:
  "(getFirstAllowedTransition ts context env = (Inr (Some t), env') \<longleftrightarrow>
      (\<exists>pre post env1. ts = pre @ t # post \<and> declined pre context env env1 \<and>
                       accepted t context env1 env')) \<and>
   (getFirstAllowedTransition ts context env = (Inr None, env') \<longleftrightarrow> declined ts context env env') \<and>
   (\<forall>pre post env1. ts = pre @ t # post \<and> declined pre context env env1 \<and>
        accepted t context env1 env' \<longrightarrow>
        trace env' = trace env @
          replicate (length pre + (if condition t = None then 0 else 1)) (Condition, [context]))"
proof (intro conjI allI impI)
  show "getFirstAllowedTransition ts context env = (Inr (Some t), env') \<longleftrightarrow>
      (\<exists>pre post env1. ts = pre @ t # post \<and> declined pre context env env1 \<and>
                       accepted t context env1 env')"
    using sel_imp imp_sel by blast
next
  show "getFirstAllowedTransition ts context env = (Inr None, env') \<longleftrightarrow> declined ts context env env'"
    by (rule none_iff)
next
  fix pre post env1
  assume h: "ts = pre @ t # post \<and> declined pre context env env1 \<and> accepted t context env1 env'"
  then have 1: "trace env1 = trace env @ replicate (length pre) (Condition, [context])"
    by (auto dest: declined_trace)
  from h have 2: "trace env' = trace env1 @
      replicate (if condition t = None then 0 else 1) (Condition, [context])"
    by (auto simp: accepted_def split: option.splits dest: callHandler_trace)
  from 1 2 show "trace env' = trace env @
          replicate (length pre + (if condition t = None then 0 else 1)) (Condition, [context])"
    by (simp add: replicate_add)
qed

text \<open>
  The list of the specification, A with a false condition, B with a true one and C
  without condition, always resolves to B.
\<close>

theorem C6_witness:
  "(\<forall>context env.
      fst (getFirstAllowedTransition [exampleA, exampleB, exampleC] context env) = Inr (Some exampleB)) \<and>
   getFirstAllowedTransition [exampleA, exampleB, exampleC] Null exampleEnv
     = (Inr (Some exampleB),
        exampleEnv\<lparr>world := 2, trace := [(Condition, [Null]), (Condition, [Null])]\<rparr>) \<and>
   (\<exists>pre post env1.
      [exampleA, exampleB, exampleC] = pre @ exampleB # post \<and>
      declined pre Null exampleEnv env1 \<and>
      accepted exampleB Null env1
        (exampleEnv\<lparr>world := 2, trace := [(Condition, [Null]), (Condition, [Null])]\<rparr>))"
proof -
  have all: "\<forall>context env.
      fst (getFirstAllowedTransition [exampleA, exampleB, exampleC] context (env :: nat env)) = Inr (Some exampleB)"
    by (simp add: exampleA_def exampleB_def exampleC_def returning_def callHandler_def)
  have run: "getFirstAllowedTransition [exampleA, exampleB, exampleC] Null exampleEnv
     = (Inr (Some exampleB),
        exampleEnv\<lparr>world := 2, trace := [(Condition, [Null]), (Condition, [Null])]\<rparr>)"
    by (simp add: exampleA_def exampleB_def exampleC_def returning_def callHandler_def exampleEnv_def)
  from C6_first_allowed_transition [THEN conjunct1, THEN iffD1, OF run]
  have "\<exists>pre post env1.
      [exampleA, exampleB, exampleC] = pre @ exampleB # post \<and>
      declined pre Null exampleEnv env1 \<and>
      accepted exampleB Null env1
        (exampleEnv\<lparr>world := 2, trace := [(Condition, [Null]), (Condition, [Null])]\<rparr>)" .
  with all run show ?thesis by (intro conjI)
qed

section \<open>Transition execution\<close>

text \<open>
  C7: the value an executed transition returns is \<^verbatim>\<open>undefined\<close> when the transition has
  no action, the result of the action when it has exactly one, and the array of all
  action results in order when it has more than one.
\<close>

theorem C7_executeTransition_result:
  assumes "executeTransition sched transitionConfig context eng env = (Inr v, eng', env')"
  shows "\<exists>eng1 env2 env3 actionRetvals.
           settleEach TransitionAction (actions transitionConfig)
             [currentState eng1, nextStateOf transitionConfig eng1, context] env2
             = (map Inr actionRetvals, env3) \<and>
           length actionRetvals = length (actions transitionConfig) \<and>
           v = (case actionRetvals of [] \<Rightarrow> Undefined | [r] \<Rightarrow> r | r # r' # rs \<Rightarrow> Arr actionRetvals)"
proof -
  from assms obtain eng1 env2 env3 actionRetvals where
    inv: "invokeEach TransitionAction (actions transitionConfig)
            [currentState eng1, nextStateOf transitionConfig eng1, context] env2 = (Inr actionRetvals, env3)"
    and v: "v = transitionResult actionRetvals"
    unfolding executeTransition_def
    by (auto split: prod.splits sum.splits)
  have "v = (case actionRetvals of [] \<Rightarrow> Undefined | [r] \<Rightarrow> r | r # r' # rs \<Rightarrow> Arr actionRetvals)"
    using v by (auto simp: transitionResult_def split: list.splits)
  with invokeEach_Inr [OF inv] show ?thesis by blast
qed

theorem C7_witness:
  "executeTransition exampleScheduler exampleCompute Null exampleEngine exampleEnv
   = (Inr (Arr [Num 1, Num 2]), exampleEngine,
      exampleEnv\<lparr>world := 2,
        trace := [(TransitionAction, [Str ''idle'', Str ''idle'', Null]),
                  (TransitionAction, [Str ''idle'', Str ''idle'', Null])]\<rparr>) \<and>
   (\<exists>eng1 env2 env3 actionRetvals.
      settleEach TransitionAction (actions exampleCompute)
        [currentState eng1, nextStateOf exampleCompute eng1, Null] env2
        = (map Inr actionRetvals, env3) \<and>
      length actionRetvals = length (actions exampleCompute) \<and>
      Arr [Num 1, Num 2] =
        (case actionRetvals of [] \<Rightarrow> Undefined | [r] \<Rightarrow> r | r # r' # rs \<Rightarrow> Arr actionRetvals))"
proof -
  have run: "executeTransition exampleScheduler exampleCompute Null exampleEngine exampleEnv
   = (Inr (Arr [Num 1, Num 2]), exampleEngine,
      exampleEnv\<lparr>world := 2,
        trace := [(TransitionAction, [Str ''idle'', Str ''idle'', Null]),
                  (TransitionAction, [Str ''idle'', Str ''idle'', Null])]\<rparr>)"
    by (simp add: example_defs engine_defs)
  from run C7_executeTransition_result [OF run] show ?thesis by (rule conjI)
qed

text \<open>
  C8: a transition with \<^verbatim>\<open>ignore\<close> set runs its own actions and nothing else. The engine
  is left as it was (current state, timer handles, cancelers and child engines), the
  result and the world are those of the fan-out over the actions, the trace grows by
  the action calls only, and no timer, registration or object is created or cleared.
\<close>

theorem C8_ignore_runs_only_actions:
  assumes "ignore transitionConfig"
    and "executeTransition sched transitionConfig context eng env = (r, eng', env')"
  shows "eng' = eng \<and>
         (\<exists>outs. settleEach TransitionAction (actions transitionConfig)
                    [currentState eng, nextStateOf transitionConfig eng, context] env = (outs, env') \<and>
                  r = map_sum id transitionResult (collect outs)) \<and>
         trace env' = trace env @ replicate (length (actions transitionConfig))
                        (TransitionAction, [currentState eng, nextStateOf transitionConfig eng, context]) \<and>
         activeTimers env' = activeTimers env \<and> nextTimerID env' = nextTimerID env \<and>
         noopCompletions env' = noopCompletions env \<and>
         nextRegistration env' = nextRegistration env \<and> nextObjectID env' = nextObjectID env"
proof -
  obtain outs env1 where s: "settleEach TransitionAction (actions transitionConfig)
      [currentState eng, nextStateOf transitionConfig eng, context] env = (outs, env1)"
    by (cases "settleEach TransitionAction (actions transitionConfig)
      [currentState eng, nextStateOf transitionConfig eng, context] env")
  from assms s have "eng' = eng" "env' = env1" "r = map_sum id transitionResult (collect outs)"
    unfolding executeTransition_def invokeEach_def
    by (auto split: sum.splits)
  with s settleEach_env [OF s] show ?thesis by simp
qed

theorem C8_witness:
  "ignore exampleCompute \<and>
   executeTransition exampleScheduler exampleCompute Null exampleEngine exampleEnv
   = (Inr (Arr [Num 1, Num 2]), exampleEngine,
      exampleEnv\<lparr>world := 2,
        trace := [(TransitionAction, [Str ''idle'', Str ''idle'', Null]),
                  (TransitionAction, [Str ''idle'', Str ''idle'', Null])]\<rparr>) \<and>
   trace (snd (snd (executeTransition exampleScheduler exampleCompute Null exampleEngine exampleEnv)))
     = trace exampleEnv @ replicate (length (actions exampleCompute))
         (TransitionAction, [currentState exampleEngine, nextStateOf exampleCompute exampleEngine, Null])"
proof -
  have ign: "ignore exampleCompute" by (simp add: exampleCompute_def)
  have run: "executeTransition exampleScheduler exampleCompute Null exampleEngine exampleEnv
   = (Inr (Arr [Num 1, Num 2]), exampleEngine,
      exampleEnv\<lparr>world := 2,
        trace := [(TransitionAction, [Str ''idle'', Str ''idle'', Null]),
                  (TransitionAction, [Str ''idle'', Str ''idle'', Null])]\<rparr>)"
    by (simp add: example_defs engine_defs)
  from C8_ignore_runs_only_actions [OF ign run]
  have "trace (exampleEnv\<lparr>world := 2,
        trace := [(TransitionAction, [Str ''idle'', Str ''idle'', Null]),
                  (TransitionAction, [Str ''idle'', Str ''idle'', Null])]\<rparr>)
     = trace exampleEnv @ replicate (length (actions exampleCompute))
         (TransitionAction, [currentState exampleEngine, nextStateOf exampleCompute exampleEngine, Null])"
    by blast
  with ign run show ?thesis by simp
qed

text \<open>
  C3, as amended: executing a transition whose target state is \<^verbatim>\<open>null\<close>, the value
  line 134 tests for, leaves the current state as it was before, whatever the mode and
  whether or not a step fails; the target \<^verbatim>\<open>nextState\<close> it computes is the current state
  of the engine it is computed on, and \<^verbatim>\<open>exitState\<close> before it does not change that
  state.
\<close>

theorem C3_null_target_keeps_state:
  assumes "targetState transitionConfig = Null"
    and "executeTransition sched transitionConfig context eng env = (r, eng', env')"
  shows "currentState eng' = currentState eng \<and>
         (\<forall>eng1. nextStateOf transitionConfig eng1 = currentState eng1)"
proof
  from executeTransition_frame [OF assms(2)] assms(1)
  show "currentState eng' = currentState eng" by auto
next
  from assms(1) show "\<forall>eng1. nextStateOf transitionConfig eng1 = currentState eng1"
    by (simp add: nextStateOf_def)
qed

text \<open>
  A target state that is absent as a property reads as \<^verbatim>\<open>undefined\<close>, which line 134 does
  not take for absent: \<^verbatim>\<open>undefined !== null\<close> holds, so \<^verbatim>\<open>nextState\<close> is \<^verbatim>\<open>undefined\<close> and a
  transition in normal mode enters it. The engine in state idle handles the event lost,
  whose transition has no target state, and ends in state \<^verbatim>\<open>undefined\<close>.
\<close>

theorem C3_counterexample:
  "currentState exampleLostEngine = Str ''idle'' \<and>
   getFirstAllowedTransitionForEvent (createContextWithEvent (Str ''lost'') Undefined)
     exampleLostEngine exampleEnv = (Inr (Some (exampleTransition Undefined)), exampleEnv) \<and>
   targetState (exampleTransition Undefined) = Undefined \<and>
   nextStateOf (exampleTransition Undefined) exampleLostEngine = Undefined \<and>
   fst (handle exampleScheduler (Str ''lost'') Undefined exampleLostEngine exampleEnv)
     = Inr Undefined \<and>
   currentState
     (fst (snd (handle exampleScheduler (Str ''lost'') Undefined exampleLostEngine exampleEnv)))
     = Undefined"
  by (simp add: example_defs engine_defs)

theorem C3_witness:
  "targetState (exampleTransition Null) = Null \<and>
   fst (executeTransition exampleScheduler (exampleTransition Null)
          (createContextWithEvent (Str ''again'') Undefined) exampleEngine exampleEnv)
     = Inr Undefined \<and>
   trace (snd (snd (executeTransition exampleScheduler (exampleTransition Null)
                      (createContextWithEvent (Str ''again'') Undefined) exampleEngine exampleEnv)))
     = [(StateExitHook, [Str ''idle'', Obj [(''event'', Str ''again'')]]),
        (ExitAction, [Str ''idle'', Obj [(''event'', Str ''again'')]]),
        (TransitionHook, [Str ''idle'', Str ''idle'', Obj [(''event'', Str ''again'')]]),
        (StateEnterHook, [Str ''idle'', Obj [(''event'', Str ''again'')]]),
        (EntryAction, [Str ''idle'', Obj [(''event'', Str ''again'')]])] \<and>
   currentState (fst (snd (executeTransition exampleScheduler (exampleTransition Null)
                             (createContextWithEvent (Str ''again'') Undefined)
                             exampleEngine exampleEnv)))
     = Str ''idle'' \<and>
   nextStateOf (exampleTransition Null) exampleEngine = Str ''idle''"
proof -
  have tgt: "targetState (exampleTransition Null) = Null"
    by (simp add: exampleTransition_def)
  obtain r eng' env' where run:
    "executeTransition exampleScheduler (exampleTransition Null)
       (createContextWithEvent (Str ''again'') Undefined) exampleEngine exampleEnv = (r, eng', env')"
    by (cases "executeTransition exampleScheduler (exampleTransition Null)
       (createContextWithEvent (Str ''again'') Undefined) exampleEngine exampleEnv")
  have ev: "fst (executeTransition exampleScheduler (exampleTransition Null)
          (createContextWithEvent (Str ''again'') Undefined) exampleEngine exampleEnv)
        = Inr Undefined"
      "trace (snd (snd (executeTransition exampleScheduler (exampleTransition Null)
                      (createContextWithEvent (Str ''again'') Undefined) exampleEngine exampleEnv)))
     = [(StateExitHook, [Str ''idle'', Obj [(''event'', Str ''again'')]]),
        (ExitAction, [Str ''idle'', Obj [(''event'', Str ''again'')]]),
        (TransitionHook, [Str ''idle'', Str ''idle'', Obj [(''event'', Str ''again'')]]),
        (StateEnterHook, [Str ''idle'', Obj [(''event'', Str ''again'')]]),
        (EntryAction, [Str ''idle'', Obj [(''event'', Str ''again'')]])]"
    by (simp_all add: example_defs engine_defs)
  from C3_null_target_keeps_state [OF tgt run]
  have "currentState eng' = currentState exampleEngine \<and>
        (\<forall>eng1. nextStateOf (exampleTransition Null) eng1 = currentState eng1)" .
  then have "currentState eng' = currentState exampleEngine \<and>
        nextStateOf (exampleTransition Null) exampleEngine = currentState exampleEngine"
    by blast
  with tgt ev run show ?thesis by (simp add: exampleEngine_def)
qed

section \<open>Entry and exit\<close>



text \<open>
  The same rollback when the state declares as submachine an object that is no
  configuration: the constructor throws inside the \<^verbatim>\<open>try\<close> block, after the timer of
  the state was started.
\<close>

lemma entry_rollback_malformed_submachine:
  "fst (enterState exampleScheduler (Str ''busy'') createContext exampleMalformedEngine exampleEnv)
     = Inl (StateMachineConfigError ''Configuration is malformed.'') \<and>
   currentState (fst (snd (enterState exampleScheduler (Str ''busy'') createContext
                             exampleMalformedEngine exampleEnv))) = stopped \<and>
   timerIDs (fst (snd (enterState exampleScheduler (Str ''busy'') createContext
                         exampleMalformedEngine exampleEnv))) = None \<and>
   nextTimerID (snd (snd (enterState exampleScheduler (Str ''busy'') createContext
                            exampleMalformedEngine exampleEnv))) = 1 \<and>
   activeTimers (snd (snd (enterState exampleScheduler (Str ''busy'') createContext
                             exampleMalformedEngine exampleEnv))) = []"
  by (simp add: example_defs engine_defs)

text \<open>
  C10: when \<^verbatim>\<open>stop\<close> is called on a started engine and the exit fails, the error is the
  result of \<^verbatim>\<open>stop\<close> and the current state keeps its value, so the engine is still
  started; the stopped sentinel is assigned only when \<^verbatim>\<open>exitState\<close> has returned. A
  throwing global exit hook, and a throwing exit action of the current state, make
  the exit fail with their error.
\<close>

theorem C10_stop_failure_keeps_state:
  assumes "isStarted eng"
  shows "(\<forall>r eng' env'. stop eng env = (r, eng', env') \<longrightarrow>
            (case r of
               Inl e \<Rightarrow> currentState eng' = currentState eng \<and> isStarted eng' \<and>
                        exitState createContext eng env = (Inl e, eng', env')
             | Inr u \<Rightarrow> currentState eng' = stopped \<and>
                        (\<exists>eng1. exitState createContext eng env = (Inr (), eng1, env') \<and>
                                eng' = set_currentState stopped eng1))) \<and>
         (\<forall>engA envA engB envB engC envC e envD.
            stopSubmachines eng env = (Inr (), engA, envA) \<and> stopTimers engA envA = (engB, envB) \<and>
            cancelAsyncActions engB envB = (engC, envC) \<and>
            invokeEach StateExitHook (stateExitHooks (global (config eng)))
              [currentState eng, createContext] envC = (Inl e, envD)
            \<longrightarrow> stop eng env = (Inl e, engC, envD)) \<and>
         (\<forall>engA envA engB envB engC envC rs envD stateConfig e envE.
            stopSubmachines eng env = (Inr (), engA, envA) \<and> stopTimers engA envA = (engB, envB) \<and>
            cancelAsyncActions engB envB = (engC, envC) \<and>
            invokeEach StateExitHook (stateExitHooks (global (config eng)))
              [currentState eng, createContext] envC = (Inr rs, envD) \<and>
            map_of (states (config eng)) (currentState eng) = Some stateConfig \<and>
            invokeEach ExitAction (exitActions stateConfig)
              [currentState eng, createContext] envD = (Inl e, envE)
            \<longrightarrow> stop eng env = (Inl e, engC, envE))"
proof (intro conjI allI impI)
  fix r eng' env'
  assume st: "stop eng env = (r, eng', env')"
  obtain r1 eng1 env1 where ex: "exitState createContext eng env = (r1, eng1, env1)"
    by (cases "exitState createContext eng env")
  from exitState_frame [OF ex] have cur: "currentState eng1 = currentState eng" by simp
  show "case r of
          Inl e \<Rightarrow> currentState eng' = currentState eng \<and> isStarted eng' \<and>
                   exitState createContext eng env = (Inl e, eng', env')
        | Inr u \<Rightarrow> currentState eng' = stopped \<and>
                   (\<exists>eng1. exitState createContext eng env = (Inr (), eng1, env') \<and>
                           eng' = set_currentState stopped eng1)"
    using st ex cur assms
    by (cases r1) (auto simp: stop.simps isStarted_def)
next
  fix engA envA engB envB engC envC e envD
  assume h: "stopSubmachines eng env = (Inr (), engA, envA) \<and> stopTimers engA envA = (engB, envB) \<and>
            cancelAsyncActions engB envB = (engC, envC) \<and>
            invokeEach StateExitHook (stateExitHooks (global (config eng)))
              [currentState eng, createContext] envC = (Inl e, envD)"
  then have "currentState engC = currentState eng" "config engC = config eng"
    by (auto dest!: stopSubmachines_frame stopTimers_eq cancelAsyncActions_eq)
  with h assms show "stop eng env = (Inl e, engC, envD)"
    by (simp add: stop.simps exitState.simps)
next
  fix engA envA engB envB engC envC rs envD stateConfig e envE
  assume h: "stopSubmachines eng env = (Inr (), engA, envA) \<and> stopTimers engA envA = (engB, envB) \<and>
            cancelAsyncActions engB envB = (engC, envC) \<and>
            invokeEach StateExitHook (stateExitHooks (global (config eng)))
              [currentState eng, createContext] envC = (Inr rs, envD) \<and>
            map_of (states (config eng)) (currentState eng) = Some stateConfig \<and>
            invokeEach ExitAction (exitActions stateConfig)
              [currentState eng, createContext] envD = (Inl e, envE)"
  then have "currentState engC = currentState eng" "config engC = config eng"
    by (auto dest!: stopSubmachines_frame stopTimers_eq cancelAsyncActions_eq)
  with h assms show "stop eng env = (Inl e, engC, envE)"
    by (simp add: stop.simps exitState.simps)
qed

theorem C10_witness:
  "isStarted exampleBusyEngine \<and>
   fst (stop exampleBusyEngine exampleBusyEnv) = Inl (Str ''exit failed'') \<and>
   currentState (fst (snd (stop exampleBusyEngine exampleBusyEnv))) = Str ''busy'' \<and>
   isStarted (fst (snd (stop exampleBusyEngine exampleBusyEnv))) \<and>
   exitState createContext exampleBusyEngine exampleBusyEnv = stop exampleBusyEngine exampleBusyEnv"
proof -
  have started: "isStarted exampleBusyEngine"
    by (simp add: exampleBusyEngine_def isStarted_def stopped_def)
  obtain r eng' env' where run: "stop exampleBusyEngine exampleBusyEnv = (r, eng', env')"
    by (cases "stop exampleBusyEngine exampleBusyEnv")
  have "fst (stop exampleBusyEngine exampleBusyEnv) = Inl (Str ''exit failed'')"
    by (simp add: example_defs engine_defs)
  with run have r: "r = Inl (Str ''exit failed'')" by simp
  from C10_stop_failure_keeps_state [OF started, of exampleBusyEnv, THEN conjunct1, rule_format, OF run]
  have "case r of
          Inl e \<Rightarrow> currentState eng' = currentState exampleBusyEngine \<and> isStarted eng' \<and>
                   exitState createContext exampleBusyEngine exampleBusyEnv = (Inl e, eng', env')
        | Inr u \<Rightarrow> currentState eng' = stopped \<and>
                   (\<exists>eng1. exitState createContext exampleBusyEngine exampleBusyEnv = (Inr (), eng1, env') \<and>
                           eng' = set_currentState stopped eng1)" .
  with r have "currentState eng' = currentState exampleBusyEngine \<and> isStarted eng' \<and>
     exitState createContext exampleBusyEngine exampleBusyEnv = (Inl (Str ''exit failed''), eng', env')"
    by simp
  with started run r show ?thesis by (simp add: exampleBusyEngine_def)
qed

section \<open>Child engines\<close>

lemma childIdentity_set [simp]:
  "childIdentity (set_currentState s eng) state = childIdentity eng state"
  "childIdentity (set_timerIDs t eng) state = childIdentity eng state"
  "childIdentity (set_asyncActionCancelers c eng) state = childIdentity eng state"
  by (simp_all add: childIdentity_def)

lemma childIdentity_update:
  "childIdentity (set_submachines (AList.update s child (submachines eng)) eng) state =
     (if state = s then Some (oid child) else childIdentity eng state)"
  by (simp add: childIdentity_def update_conv')

lemma startSubmachines_identity:
  assumes "childIdentity eng state = Some i"
    and "startSubmachines sched s eng env = (r, eng', env')"
  shows "childIdentity eng' state = Some i"
proof (cases "state = s")
  case False
  with assms show ?thesis
    by (auto simp: startSubmachines.simps childIdentity_update
             split: option.splits prod.splits sum.splits if_splits)
next
  case True
  with assms(1) obtain child where c: "map_of (submachines eng) s = Some child" "oid child = i"
    by (auto simp: childIdentity_def)
  with assms(2) True show ?thesis
    by (auto simp: startSubmachines.simps childIdentity_def update_conv'
             split: option.splits prod.splits if_splits dest!: start_frame)
qed

lemma stopSubmachines_identity:
  assumes "childIdentity eng state = Some i"
    and "stopSubmachines eng env = (r, eng', env')"
  shows "childIdentity eng' state = Some i"
proof (cases "state = currentState eng")
  case False
  with assms show ?thesis
    by (auto simp: stopSubmachines.simps childIdentity_update split: option.splits prod.splits)
next
  case True
  with assms(1) obtain child where c: "map_of (submachines eng) (currentState eng) = Some child" "oid child = i"
    by (auto simp: childIdentity_def)
  with assms(2) True show ?thesis
    by (auto simp: stopSubmachines.simps childIdentity_def update_conv'
             split: option.splits prod.splits dest!: stop_frame)
qed

lemma startTimers_identity:
  "startTimers s eng env = (eng', env') \<Longrightarrow> childIdentity eng' state = childIdentity eng state"
  by (auto simp: startTimers_def split: option.splits if_splits prod.splits)

lemma stopTimers_identity:
  "stopTimers eng env = (eng', env') \<Longrightarrow> childIdentity eng' state = childIdentity eng state"
  by (auto simp: stopTimers_def split: option.splits)

lemma cancelAsyncActions_identity:
  "cancelAsyncActions eng env = (eng', env') \<Longrightarrow> childIdentity eng' state = childIdentity eng state"
  by (auto simp: cancelAsyncActions_def split: option.splits)

lemma enterStateTry_identity:
  assumes "childIdentity eng state = Some i"
    and "enterStateTry sched s context eng env = (r, eng', env')"
  shows "childIdentity eng' state = Some i"
  using assms
  by (auto simp: enterStateTry.simps split: prod.splits sum.splits
           dest!: startTimers_identity [where state = state]
           dest: startSubmachines_identity)

lemma enterState_identity:
  assumes "childIdentity eng state = Some i"
    and "enterState sched s context eng env = (r, eng', env')"
  shows "childIdentity eng' state = Some i"
  using assms
  by (auto simp: enterState.simps enterStateCatch_def split: prod.splits sum.splits
           dest!: stopTimers_identity [where state = state]
                  cancelAsyncActions_identity [where state = state]
           dest: enterStateTry_identity)

lemma start_identity:
  assumes "childIdentity eng state = Some i"
    and "start sched eng env = (r, eng', env')"
  shows "childIdentity eng' state = Some i"
  using assms by (auto simp: start.simps split: if_splits dest: enterState_identity)

lemma exitState_identity:
  assumes "childIdentity eng state = Some i"
    and "exitState context eng env = (r, eng', env')"
  shows "childIdentity eng' state = Some i"
  using assms
  by (auto simp: exitState.simps split: prod.splits sum.splits option.splits
           dest!: stopTimers_identity [where state = state]
                  cancelAsyncActions_identity [where state = state]
           dest: stopSubmachines_identity)

lemma stop_identity:
  assumes "childIdentity eng state = Some i"
    and "stop eng env = (r, eng', env')"
  shows "childIdentity eng' state = Some i"
  using assms
  by (auto simp: stop.simps split: if_splits prod.splits sum.splits dest: exitState_identity)

lemma executeTransition_identity:
  assumes "childIdentity eng state = Some i"
    and "executeTransition sched tc context eng env = (r, eng', env')"
  shows "childIdentity eng' state = Some i"
  using assms
  by (auto simp: executeTransition_def split: if_splits prod.splits sum.splits
           dest: exitState_identity enterState_identity)

lemma handleUnhandledEvent_engine:
  "handleUnhandledEvent event eventPayload eng env = (r, eng', env') \<Longrightarrow> eng' = eng"
  by (auto simp: handleUnhandledEvent_def Let_def split: if_splits prod.splits sum.splits)

lemma handle_identity:
  assumes "childIdentity eng state = Some i"
    and "handle sched event eventPayload eng env = (r, eng', env')"
  shows "childIdentity eng' state = Some i"
  using assms
  by (auto simp: handle_def split: if_splits prod.splits sum.splits option.splits
           dest: executeTransition_identity handleUnhandledEvent_engine)

lemma executeTriggerUnit_identity:
  assumes "childIdentity eng state = Some i"
    and "executeTriggerUnit sched trigger context eng env = (r, eng', env')"
  shows "childIdentity eng' state = Some i"
  using assms
  by (auto simp: executeTriggerUnit_def split: prod.splits sum.splits option.splits
           dest: executeTransition_identity)

lemma startAsyncActionUnit_identity:
  assumes "childIdentity eng state = Some i"
    and "startAsyncActionUnit sched a s context eng env = (r, eng', env')"
  shows "childIdentity eng' state = Some i"
  using assms
  by (auto simp: startAsyncActionUnit_def split: prod.splits sum.splits)


lemma newStateMachine_Inr:
  "newStateMachine raw env = (Inr child, env1) \<Longrightarrow>
     oid child = nextObjectID env \<and> currentState child = stopped \<and> submachines child = [] \<and>
     (\<exists>cfg. raw = RawConfig cfg \<and> config child = cfg)"
  by (cases raw) (auto simp: newEngine_def split: if_splits)

text \<open>Only the constructor draws from \<open>nextObjectID\<close>.\<close>

lemma invokeEach_objects:
  "invokeEach k hs args env = (r, env') \<Longrightarrow> nextObjectID env' = nextObjectID env"
  using settleEach_env [of k hs args env]
  by (auto simp: invokeEach_def split: prod.splits)

lemma enterStateHooks_objects:
  "enterStateHooks state context eng env = (r, env') \<Longrightarrow> nextObjectID env' = nextObjectID env"
  by (auto simp: enterStateHooks_def split: prod.splits sum.splits option.splits if_splits
           dest!: invokeEach_objects)

lemma startAsyncActionEach_objects:
  "startAsyncActionEach sched acts state context env = (r, env') \<Longrightarrow>
   nextObjectID env' = nextObjectID env"
  by (induction acts arbitrary: env)
     (auto simp: startAsyncAction_def enqueue_def split: prod.splits sum.splits)

lemma startAsyncActions_objects:
  "startAsyncActions sched state context eng env = (r, env') \<Longrightarrow>
   nextObjectID env' = nextObjectID env"
  by (auto simp: startAsyncActions_def split: option.splits dest: startAsyncActionEach_objects)

lemma setTimeoutEach_objects:
  "setTimeoutEach ts env = (ids, env') \<Longrightarrow> nextObjectID env' = nextObjectID env"
  by (induction ts arbitrary: env ids) (auto simp: setTimeout_def split: prod.splits)

lemma startTimers_objects:
  "startTimers state eng env = (eng', env') \<Longrightarrow> nextObjectID env' = nextObjectID env"
  by (auto simp: startTimers_def split: option.splits if_splits prod.splits
           dest: setTimeoutEach_objects)

text \<open>What \<^verbatim>\<open>startSubmachines\<close> leaves in the store.\<close>

lemma startSubmachines_fresh:
  assumes "map_of (states (config eng)) state = Some stateConfig"
    and "declared (submachine stateConfig)"
    and "map_of (submachines eng) state = None"
    and "newStateMachine (submachine stateConfig) env = (Inr child, env1)"
    and "startSubmachines sched state eng env = (r, eng', env')"
  shows "\<exists>child1. start sched child env1 = (r, child1, env') \<and>
           map_of (submachines eng') state = Some child1 \<and> oid child1 = nextObjectID env \<and>
           (\<forall>s. s \<noteq> state \<longrightarrow> map_of (submachines eng') s = map_of (submachines eng) s)"
proof -
  obtain r1 child1 env2 where st: "start sched child env1 = (r1, child1, env2)"
    by (cases "start sched child env1")
  from assms st have res: "r = r1" "env' = env2"
    "eng' = set_submachines (AList.update state child1 (submachines eng)) eng"
    by (simp_all add: startSubmachines.simps)
  from start_frame [OF st] newStateMachine_Inr [OF assms(4)]
  have "oid child1 = nextObjectID env" by simp
  with st res show ?thesis by (simp add: update_conv')
qed

lemma startSubmachines_stored:
  assumes "map_of (states (config eng)) state = Some stateConfig"
    and "declared (submachine stateConfig)"
    and "map_of (submachines eng) state = Some child"
    and "startSubmachines sched state eng env = (r, eng', env')"
  shows "\<exists>child1. start sched child env = (r, child1, env') \<and>
           map_of (submachines eng') state = Some child1 \<and> oid child1 = oid child \<and>
           (\<forall>s. s \<noteq> state \<longrightarrow> map_of (submachines eng') s = map_of (submachines eng) s)"
proof -
  obtain r1 child1 env2 where st: "start sched child env = (r1, child1, env2)"
    by (cases "start sched child env")
  from assms st have res: "r = r1" "env' = env2"
    "eng' = set_submachines (AList.update state child1 (submachines eng)) eng"
    by (simp_all add: startSubmachines.simps)
  from start_frame [OF st] have "oid child1 = oid child" by simp
  with st res show ?thesis by (simp add: update_conv')
qed

text \<open>The first entry of a state whose submachine is a configuration object.\<close>

lemma enterState_first_entry:
  assumes sc: "map_of (states (config eng)) state = Some stateConfig"
    and raw: "submachine stateConfig = RawConfig subConfig"
    and none: "map_of (submachines eng) state = None"
    and hooks: "enterStateHooks state context eng env = (Inr (), env1)"
    and async: "startAsyncActions sched state context eng env1 = (Inr (), env2)"
    and run: "enterState sched state context eng env = (r, eng', env')"
  shows "childIdentity eng' state = Some (nextObjectID env)"
proof -
  obtain engT envT where timers: "startTimers state eng env2 = (engT, envT)"
    by (cases "startTimers state eng env2")
  from startTimers_frame [OF timers]
  have frame: "config engT = config eng" "submachines engT = submachines eng" by simp_all
  from enterStateHooks_objects [OF hooks] startAsyncActions_objects [OF async]
    startTimers_objects [OF timers]
  have objects: "nextObjectID envT = nextObjectID env" by simp
  obtain child envC where new: "newStateMachine (submachine stateConfig) envT = (Inr child, envC)"
    using raw by (simp add: split_beta)
  obtain r3 eng3 env3 where sub: "startSubmachines sched state engT envT = (r3, eng3, env3)"
    by (cases "startSubmachines sched state engT envT")
  from sc raw none frame have pre:
    "map_of (states (config engT)) state = Some stateConfig" "declared (submachine stateConfig)"
    "map_of (submachines engT) state = None"
    by simp_all
  from startSubmachines_fresh [OF pre new sub] objects
  have stored: "childIdentity eng3 state = Some (nextObjectID env)"
    by (auto simp: childIdentity_def)
  from async timers sub have tried:
    "enterStateTry sched state context eng env1 = (r3, eng3, env3)"
    by (simp add: enterStateTry.simps)
  show ?thesis
  proof (cases r3)
    case (Inl error)
    obtain rC engC envC' where caught: "enterStateCatch error eng3 env3 = (rC, engC, envC')"
      by (cases "enterStateCatch error eng3 env3")
    from enterStateCatch_eq [OF caught] stored
    have "childIdentity engC state = Some (nextObjectID env)"
      by (simp add: childIdentity_def)
    moreover from run hooks tried Inl caught have "eng' = engC"
      by (simp add: enterState.simps)
    ultimately show ?thesis by simp
  next
    case (Inr u)
    with run hooks tried have "eng' = set_currentState state eng3"
      by (simp add: enterState.simps)
    with stored show ?thesis by simp
  qed
qed

lemma triple: "p = (fst p, fst (snd p), snd (snd p))"
  by simp

text \<open>
  C9: at most one child engine instance ever exists for a state that declares a
  submachine. When the engine has no child stored for the state, \<^verbatim>\<open>startSubmachines\<close>
  constructs one, with a fresh identity, and starts it, and the store then holds that
  instance for the state (a constructor that throws stores nothing); the first entry
  of the state that reaches \<^verbatim>\<open>startSubmachines\<close> leaves the store holding the fresh
  identity, whether the entry then succeeds or is rolled back. When a child is stored,
  \<^verbatim>\<open>startSubmachines\<close> starts the stored instance, constructs nothing of its own, and the
  store holds the same identity afterwards. The children of other states are not
  touched. No operation of the engine replaces or removes a stored child: entry, exit,
  \<^verbatim>\<open>start\<close>, \<^verbatim>\<open>stop\<close>, \<^verbatim>\<open>handle\<close>, transition execution and the scheduled units all keep
  the identity stored for the state.
\<close>

theorem C9_one_child_instance_per_state:
  assumes "map_of (states (config eng)) state = Some stateConfig"
    and "declared (submachine stateConfig)"
  shows
   "(map_of (submachines eng) state = None \<longrightarrow>
       (\<forall>e env1. newStateMachine (submachine stateConfig) env = (Inl e, env1) \<longrightarrow>
          startSubmachines sched state eng env = (Inl e, eng, env1)) \<and>
       (\<forall>child env1 r eng' env'.
          newStateMachine (submachine stateConfig) env = (Inr child, env1) \<and>
          startSubmachines sched state eng env = (r, eng', env') \<longrightarrow>
          (\<exists>child1. start sched child env1 = (r, child1, env') \<and>
             map_of (submachines eng') state = Some child1 \<and>
             oid child1 = nextObjectID env) \<and>
          childIdentity eng' state = Some (nextObjectID env) \<and>
          (\<forall>other. other \<noteq> state \<longrightarrow>
             map_of (submachines eng') other = map_of (submachines eng) other)) \<and>
       (\<forall>subConfig env1 env2.
          submachine stateConfig = RawConfig subConfig \<and>
          enterStateHooks state context eng env = (Inr (), env1) \<and>
          startAsyncActions sched state context eng env1 = (Inr (), env2) \<longrightarrow>
          childIdentity (fst (snd (enterState sched state context eng env))) state
            = Some (nextObjectID env))) \<and>
    (\<forall>child r eng' env'.
       map_of (submachines eng) state = Some child \<and>
       startSubmachines sched state eng env = (r, eng', env') \<longrightarrow>
       (\<exists>child1. start sched child env = (r, child1, env') \<and>
          map_of (submachines eng') state = Some child1 \<and>
          oid child1 = oid child) \<and>
       childIdentity eng' state = Some (oid child) \<and>
       (\<forall>other. other \<noteq> state \<longrightarrow>
          map_of (submachines eng') other = map_of (submachines eng) other)) \<and>
    (\<forall>i. childIdentity eng state = Some i \<longrightarrow>
       childIdentity (fst (snd (enterState sched s context eng env))) state = Some i \<and>
       childIdentity (fst (snd (exitState context eng env))) state = Some i \<and>
       childIdentity (fst (snd (start sched eng env))) state = Some i \<and>
       childIdentity (fst (snd (stop eng env))) state = Some i \<and>
       childIdentity (fst (snd (executeTransition sched transitionConfig context eng env))) state = Some i \<and>
       childIdentity (fst (snd (handle sched event eventPayload eng env))) state = Some i \<and>
       childIdentity (fst (snd (executeTriggerUnit sched triggerConfig context eng env))) state = Some i \<and>
       childIdentity (fst (snd (startAsyncActionUnit sched asyncActionConfig s context eng env))) state
         = Some i)"
proof (intro conjI allI impI)
  fix e env1
  assume "map_of (submachines eng) state = None"
    and "newStateMachine (submachine stateConfig) env = (Inl e, env1)"
  with assms show "startSubmachines sched state eng env = (Inl e, eng, env1)"
    by (simp add: startSubmachines.simps)
next
  fix child env1 r eng' env'
  assume none: "map_of (submachines eng) state = None"
    and h: "newStateMachine (submachine stateConfig) env = (Inr child, env1) \<and>
            startSubmachines sched state eng env = (r, eng', env')"
  from h have new: "newStateMachine (submachine stateConfig) env = (Inr child, env1)"
    and run: "startSubmachines sched state eng env = (r, eng', env')" by simp_all
  from startSubmachines_fresh [OF assms none new run]
  obtain child1 where c: "start sched child env1 = (r, child1, env')"
    "map_of (submachines eng') state = Some child1" "oid child1 = nextObjectID env"
    and others: "\<forall>other. other \<noteq> state \<longrightarrow>
             map_of (submachines eng') other = map_of (submachines eng) other"
    by blast
  from c show "\<exists>child1. start sched child env1 = (r, child1, env') \<and>
             map_of (submachines eng') state = Some child1 \<and>
             oid child1 = nextObjectID env" by blast
  from c show "childIdentity eng' state = Some (nextObjectID env)"
    by (simp add: childIdentity_def)
  fix other assume "other \<noteq> state"
  with others show "map_of (submachines eng') other = map_of (submachines eng) other" by blast
next
  fix subConfig env1 env2
  assume none: "map_of (submachines eng) state = None"
    and h: "submachine stateConfig = RawConfig subConfig \<and>
          enterStateHooks state context eng env = (Inr (), env1) \<and>
          startAsyncActions sched state context eng env1 = (Inr (), env2)"
  from h have raw: "submachine stateConfig = RawConfig subConfig"
    and hooks: "enterStateHooks state context eng env = (Inr (), env1)"
    and async: "startAsyncActions sched state context eng env1 = (Inr (), env2)" by simp_all
  show "childIdentity (fst (snd (enterState sched state context eng env))) state
            = Some (nextObjectID env)"
    by (rule enterState_first_entry [OF assms(1) raw none hooks async triple])
next
  fix child r eng' env'
  assume h: "map_of (submachines eng) state = Some child \<and>
       startSubmachines sched state eng env = (r, eng', env')"
  from h have some: "map_of (submachines eng) state = Some child"
    and run: "startSubmachines sched state eng env = (r, eng', env')" by simp_all
  from startSubmachines_stored [OF assms some run]
  obtain child1 where c: "start sched child env = (r, child1, env')"
    "map_of (submachines eng') state = Some child1" "oid child1 = oid child"
    and others: "\<forall>other. other \<noteq> state \<longrightarrow>
             map_of (submachines eng') other = map_of (submachines eng) other"
    by blast
  from c show "\<exists>child1. start sched child env = (r, child1, env') \<and>
          map_of (submachines eng') state = Some child1 \<and>
          oid child1 = oid child" by blast
  from c show "childIdentity eng' state = Some (oid child)"
    by (simp add: childIdentity_def)
  fix other assume "other \<noteq> state"
  with others show "map_of (submachines eng') other = map_of (submachines eng) other" by blast
next
  fix i assume h: "childIdentity eng state = Some i"
  show "childIdentity (fst (snd (enterState sched s context eng env))) state = Some i"
    by (rule enterState_identity [OF h triple])
  show "childIdentity (fst (snd (exitState context eng env))) state = Some i"
    by (rule exitState_identity [OF h triple])
  show "childIdentity (fst (snd (start sched eng env))) state = Some i"
    by (rule start_identity [OF h triple])
  show "childIdentity (fst (snd (stop eng env))) state = Some i"
    by (rule stop_identity [OF h triple])
  show "childIdentity (fst (snd (executeTransition sched transitionConfig context eng env))) state = Some i"
    by (rule executeTransition_identity [OF h triple])
  show "childIdentity (fst (snd (handle sched event eventPayload eng env))) state = Some i"
    by (rule handle_identity [OF h triple])
  show "childIdentity (fst (snd (executeTriggerUnit sched triggerConfig context eng env))) state = Some i"
    by (rule executeTriggerUnit_identity [OF h triple])
  show "childIdentity (fst (snd (startAsyncActionUnit sched asyncActionConfig s context eng env))) state
         = Some i"
    by (rule startAsyncActionUnit_identity [OF h triple])
qed


text \<open>
  The nested example from a parent that has no child yet: the first entry of state
  busy constructs the child with the fresh identity 1; re-entering busy twice through
  the event retry starts that same child again and constructs no object.
\<close>

theorem C9_witness:
  "(\<exists>stateConfig.
      map_of (states (config exampleNestedFresh)) (Str ''busy'') = Some stateConfig \<and>
      declared (submachine stateConfig)) \<and>
   map_of (submachines exampleNestedFresh) (Str ''busy'') = None \<and>
   enterState exampleScheduler (Str ''busy'') createContext exampleNestedFresh
       (exampleEnv\<lparr>nextObjectID := 1\<rparr>)
     = (Inr (), exampleNestedEngine, exampleBusyEnv) \<and>
   childIdentity exampleNestedEngine (Str ''busy'')
     = Some (nextObjectID (exampleEnv\<lparr>nextObjectID := 1\<rparr>)) \<and>
   nextObjectID exampleBusyEnv = 2 \<and>
   fst (handle exampleScheduler (Str ''retry'') Undefined exampleNestedEngine exampleBusyEnv)
     = Inr Undefined \<and>
   childIdentity
     (fst (snd (handle exampleScheduler (Str ''retry'') Undefined exampleNestedEngine exampleBusyEnv)))
     (Str ''busy'') = Some 1 \<and>
   nextObjectID
     (snd (snd (handle exampleScheduler (Str ''retry'') Undefined exampleNestedEngine exampleBusyEnv)))
     = 2 \<and>
   childIdentity
     (fst (snd (handle exampleScheduler (Str ''retry'') Undefined
        (fst (snd (handle exampleScheduler (Str ''retry'') Undefined exampleNestedEngine exampleBusyEnv)))
        (snd (snd (handle exampleScheduler (Str ''retry'') Undefined exampleNestedEngine exampleBusyEnv))))))
     (Str ''busy'') = Some 1 \<and>
   nextObjectID
     (snd (snd (handle exampleScheduler (Str ''retry'') Undefined
        (fst (snd (handle exampleScheduler (Str ''retry'') Undefined exampleNestedEngine exampleBusyEnv)))
        (snd (snd (handle exampleScheduler (Str ''retry'') Undefined exampleNestedEngine exampleBusyEnv))))))
     = 2"
proof -
  obtain stateConfig where sc:
    "map_of (states (config exampleNestedFresh)) (Str ''busy'') = Some stateConfig"
    "declared (submachine stateConfig)"
    "submachine stateConfig = RawConfig (exampleChild [])"
    by (simp add: exampleNestedFresh_def exampleParent_def)
  have none: "map_of (submachines exampleNestedFresh) (Str ''busy'') = None"
    by (simp add: exampleNestedFresh_def)
  have hooks: "enterStateHooks (Str ''busy'') createContext exampleNestedFresh
       (exampleEnv\<lparr>nextObjectID := 1\<rparr>) = (Inr (), exampleEnv\<lparr>nextObjectID := 1\<rparr>)"
    by (simp add: example_defs engine_defs)
  have async: "startAsyncActions exampleScheduler (Str ''busy'') createContext exampleNestedFresh
       (exampleEnv\<lparr>nextObjectID := 1\<rparr>) = (Inr (), exampleEnv\<lparr>nextObjectID := 1\<rparr>)"
    by (simp add: example_defs engine_defs)
  have first: "enterState exampleScheduler (Str ''busy'') createContext exampleNestedFresh
       (exampleEnv\<lparr>nextObjectID := 1\<rparr>)
     = (Inr (), exampleNestedEngine, exampleBusyEnv)"
    by (simp add: example_defs engine_defs)
  from sc(3) hooks async have pre:
    "submachine stateConfig = RawConfig (exampleChild []) \<and>
     enterStateHooks (Str ''busy'') createContext exampleNestedFresh
       (exampleEnv\<lparr>nextObjectID := 1\<rparr>) = (Inr (), exampleEnv\<lparr>nextObjectID := 1\<rparr>) \<and>
     startAsyncActions exampleScheduler (Str ''busy'') createContext exampleNestedFresh
       (exampleEnv\<lparr>nextObjectID := 1\<rparr>) = (Inr (), exampleEnv\<lparr>nextObjectID := 1\<rparr>)"
    by simp
  from C9_one_child_instance_per_state [OF sc(1,2), THEN conjunct1, rule_format, OF none,
      THEN conjunct2, THEN conjunct2, rule_format, OF pre] first
  have fresh: "childIdentity exampleNestedEngine (Str ''busy'')
     = Some (nextObjectID (exampleEnv\<lparr>nextObjectID := 1\<rparr>))"
    by simp
  then have id: "childIdentity exampleNestedEngine (Str ''busy'') = Some 1"
    by (simp add: exampleEnv_def)
  obtain stateConfig2 where sc2:
    "map_of (states (config exampleNestedEngine)) (Str ''busy'') = Some stateConfig2"
    "declared (submachine stateConfig2)"
    by (simp add: exampleNestedEngine_def exampleParent_def)
  from C9_one_child_instance_per_state [OF sc2, THEN conjunct2, THEN conjunct2, rule_format, OF id]
  have second: "childIdentity
     (fst (snd (handle exampleScheduler (Str ''retry'') Undefined exampleNestedEngine exampleBusyEnv)))
     (Str ''busy'') = Some 1"
    by blast
  have ev: "nextObjectID exampleBusyEnv = 2"
    "fst (handle exampleScheduler (Str ''retry'') Undefined exampleNestedEngine exampleBusyEnv)
     = Inr Undefined"
    "nextObjectID
     (snd (snd (handle exampleScheduler (Str ''retry'') Undefined exampleNestedEngine exampleBusyEnv)))
     = 2"
    "childIdentity
     (fst (snd (handle exampleScheduler (Str ''retry'') Undefined
        (fst (snd (handle exampleScheduler (Str ''retry'') Undefined exampleNestedEngine exampleBusyEnv)))
        (snd (snd (handle exampleScheduler (Str ''retry'') Undefined exampleNestedEngine exampleBusyEnv))))))
     (Str ''busy'') = Some 1"
    "nextObjectID
     (snd (snd (handle exampleScheduler (Str ''retry'') Undefined
        (fst (snd (handle exampleScheduler (Str ''retry'') Undefined exampleNestedEngine exampleBusyEnv)))
        (snd (snd (handle exampleScheduler (Str ''retry'') Undefined exampleNestedEngine exampleBusyEnv))))))
     = 2"
    by (simp_all add: example_defs engine_defs childIdentity_def)
  from sc(1,2) have ex: "\<exists>stateConfig.
      map_of (states (config exampleNestedFresh)) (Str ''busy'') = Some stateConfig \<and>
      declared (submachine stateConfig)" by blast
  from ex none first fresh ev(1,2) second ev(3,4,5) show ?thesis by (intro conjI)
qed

section \<open>The current state\<close>

lemma getFirstAllowedTransition_mem:
  "getFirstAllowedTransition ts context env = (Inr (Some t), env') \<Longrightarrow> t \<in> set ts"
  by (induction ts arbitrary: env) (auto split: option.splits prod.splits sum.splits if_splits)

lemma transitionsOfState_configured:
  "map_of (states cfg) s = Some stateConfig \<Longrightarrow>
   set (transitionsOfState stateConfig) \<subseteq> set (configuredTransitions cfg)"
  by (auto simp: configuredTransitions_def dest!: map_of_SomeD)

lemma event_transitions:
  "map_of (events stateConfig) e = Some trigger \<Longrightarrow>
   set (transitions trigger) \<subseteq> set (transitionsOfState stateConfig)"
  by (auto simp: transitionsOfState_def dest!: map_of_SomeD)

lemma anyEvent_transitions:
  "anyEventTrigger stateConfig = Some trigger \<Longrightarrow>
   set (transitions trigger) \<subseteq> set (transitionsOfState stateConfig)"
  by (auto simp: transitionsOfState_def)

lemma getFirstAllowedTransitionForEvent_mem:
  assumes "getFirstAllowedTransitionForEvent context eng env = (Inr (Some t), env')"
  shows "t \<in> set (configuredTransitions (config eng))"
proof -
  from assms obtain stateConfig where sc:
    "map_of (states (config eng)) (currentState eng) = Some stateConfig"
    by (auto simp: getFirstAllowedTransitionForEvent_def split: option.splits)
  from assms sc have "t \<in> set (transitionsOfState stateConfig)"
    by (auto simp: getFirstAllowedTransitionForEvent_def
             split: option.splits prod.splits sum.splits
             dest!: getFirstAllowedTransition_mem
             dest: event_transitions anyEvent_transitions)
  with transitionsOfState_configured [OF sc] show ?thesis by blast
qed

lemma executeTransition_valid:
  assumes "targetsConfigured (config eng)" and "currentStateValid eng"
    and "t \<in> set (configuredTransitions (config eng))"
    and "executeTransition sched t context eng env = (r, eng', env')"
  shows "currentStateValid eng' \<and> config eng' = config eng"
  using executeTransition_frame [OF assms(4)] assms(1-3)
  unfolding currentStateValid_def targetsConfigured_def by metis

lemma handle_valid:
  assumes "targetsConfigured (config eng)" and "currentStateValid eng"
    and "handle sched event eventPayload eng env = (r, eng', env')"
  shows "currentStateValid eng' \<and> config eng' = config eng"
  using assms
  by (auto simp: handle_def split: if_splits prod.splits sum.splits option.splits
           dest!: handleUnhandledEvent_engine
           dest: executeTransition_valid [OF _ _ getFirstAllowedTransitionForEvent_mem])

lemma executeTriggerUnit_valid:
  assumes "targetsConfigured (config eng)" and "currentStateValid eng"
    and "set (transitions triggerConfig) \<subseteq> set (configuredTransitions (config eng))"
    and "executeTriggerUnit sched triggerConfig context eng env = (r, eng', env')"
  shows "currentStateValid eng' \<and> config eng' = config eng"
proof (cases "getFirstAllowedTransition (transitions triggerConfig) context env")
  case (Pair res env1)
  show ?thesis
  proof (cases res)
    case (Inl e)
    with Pair assms show ?thesis by (simp add: executeTriggerUnit_def)
  next
    case (Inr found)
    show ?thesis
    proof (cases found)
      case None
      with Pair Inr assms show ?thesis by (simp add: executeTriggerUnit_def)
    next
      case (Some t)
      with Pair Inr have "t \<in> set (transitions triggerConfig)"
        by (auto dest: getFirstAllowedTransition_mem)
      with assms(3) have mem: "t \<in> set (configuredTransitions (config eng))" by blast
      from Pair Inr Some assms(4)
      have "executeTransition sched t context eng env1 = (r, eng', env')"
        by (simp add: executeTriggerUnit_def)
      from executeTransition_valid [OF assms(1,2) mem this] show ?thesis .
    qed
  qed
qed

lemma start_valid:
  assumes "targetsConfigured (config eng)" and "currentStateValid eng"
    and "start sched eng env = (r, eng', env')"
  shows "currentStateValid eng' \<and> config eng' = config eng"
proof -
  from start_frame [OF assms(3)]
  have "config eng' = config eng"
    and "currentState eng' = currentState eng \<or> currentState eng' = initialState (config eng)"
    by (auto split: if_splits sum.splits)
  with assms(1,2) show ?thesis
    unfolding currentStateValid_def targetsConfigured_def by metis
qed

lemma stop_valid:
  assumes "currentStateValid eng" and "stop eng env = (r, eng', env')"
  shows "currentStateValid eng' \<and> config eng' = config eng"
proof -
  from stop_frame [OF assms(2)]
  have "config eng' = config eng"
    and "currentState eng' = currentState eng \<or> currentState eng' = stopped"
    by (auto split: if_splits sum.splits)
  with assms(1) show ?thesis
    unfolding currentStateValid_def by metis
qed

lemma startAsyncActionUnit_valid:
  assumes "currentStateValid eng"
    and "startAsyncActionUnit sched a s context eng env = (r, eng', env')"
  shows "currentStateValid eng' \<and> config eng' = config eng"
proof -
  from assms(2) have "config eng' = config eng" and "currentState eng' = currentState eng"
    by (auto simp: startAsyncActionUnit_def split: prod.splits sum.splits)
  with assms(1) show ?thesis by (simp add: currentStateValid_def)
qed

text \<open>
  C4, as amended: provided the initial state and every target state of a configured
  transition that is not \<^verbatim>\<open>null\<close> are keys of \<^verbatim>\<open>config.states\<close>, the current state is,
  between operations, the stopped sentinel or a key of \<^verbatim>\<open>config.states\<close>: a new engine
  satisfies this, and \<^verbatim>\<open>start\<close>, \<^verbatim>\<open>stop\<close>, \<^verbatim>\<open>handle\<close>, the execution of a configured
  transition and the scheduled units preserve it and leave the configuration as it is.
\<close>

theorem C4_currentState_stopped_or_configured:
  assumes "targetsConfigured (config eng)" and "currentStateValid eng"
  shows "currentStateValid (fst (newEngine (config eng) env)) \<and>
         currentStateValid (fst (snd (start sched eng env))) \<and>
         config (fst (snd (start sched eng env))) = config eng \<and>
         currentStateValid (fst (snd (stop eng env))) \<and>
         config (fst (snd (stop eng env))) = config eng \<and>
         currentStateValid (fst (snd (handle sched event eventPayload eng env))) \<and>
         config (fst (snd (handle sched event eventPayload eng env))) = config eng \<and>
         (\<forall>t \<in> set (configuredTransitions (config eng)).
            currentStateValid (fst (snd (executeTransition sched t context eng env))) \<and>
            config (fst (snd (executeTransition sched t context eng env))) = config eng) \<and>
         (set (transitions triggerConfig) \<subseteq> set (configuredTransitions (config eng)) \<longrightarrow>
            currentStateValid (fst (snd (executeTriggerUnit sched triggerConfig context eng env))) \<and>
            config (fst (snd (executeTriggerUnit sched triggerConfig context eng env))) = config eng) \<and>
         currentStateValid
           (fst (snd (startAsyncActionUnit sched asyncActionConfig state context eng env))) \<and>
         config (fst (snd (startAsyncActionUnit sched asyncActionConfig state context eng env)))
           = config eng"
proof -
  have "currentStateValid (fst (newEngine (config eng) env))"
    by (simp add: newEngine_def currentStateValid_def)
  moreover note start_valid [OF assms triple] stop_valid [OF assms(2) triple]
    handle_valid [OF assms triple] startAsyncActionUnit_valid [OF assms(2) triple]
  moreover have "\<forall>t \<in> set (configuredTransitions (config eng)).
            currentStateValid (fst (snd (executeTransition sched t context eng env))) \<and>
            config (fst (snd (executeTransition sched t context eng env))) = config eng"
    using executeTransition_valid [OF assms _ triple] by blast
  moreover have "set (transitions triggerConfig) \<subseteq> set (configuredTransitions (config eng)) \<longrightarrow>
            currentStateValid (fst (snd (executeTriggerUnit sched triggerConfig context eng env))) \<and>
            config (fst (snd (executeTriggerUnit sched triggerConfig context eng env))) = config eng"
    using executeTriggerUnit_valid [OF assms _ triple] by blast
  ultimately show ?thesis by blast
qed

text \<open>
  Without the proviso the invariant fails: the engine enters a state whether or not it
  is configured (every use of the state's configuration is guarded by
  \<^verbatim>\<open>if (stateConfig)\<close>). With an initial state that is no key of \<^verbatim>\<open>config.states\<close>,
  \<^verbatim>\<open>start\<close> succeeds and leaves the engine in that state.
\<close>

theorem C4_counterexample:
  "currentStateValid (fst (newEngine exampleUnconfigured exampleEnv)) \<and>
   fst (start exampleScheduler (fst (newEngine exampleUnconfigured exampleEnv))
          (snd (newEngine exampleUnconfigured exampleEnv))) = Inr () \<and>
   \<not> currentStateValid
       (fst (snd (start exampleScheduler (fst (newEngine exampleUnconfigured exampleEnv))
                    (snd (newEngine exampleUnconfigured exampleEnv)))))"
  by (simp add: currentStateValid_def example_defs engine_defs)

theorem C4_witness:
  "targetsConfigured (config exampleEngine) \<and> currentStateValid exampleEngine \<and>
   currentState (fst (snd (handle exampleScheduler (Str ''go'') Undefined exampleEngine exampleEnv)))
     = Str ''running'' \<and>
   currentStateValid (fst (snd (handle exampleScheduler (Str ''go'') Undefined exampleEngine exampleEnv))) \<and>
   currentState (fst (snd (stop exampleEngine exampleEnv))) = stopped \<and>
   currentStateValid (fst (snd (stop exampleEngine exampleEnv)))"
proof -
  have wf: "targetsConfigured (config exampleEngine)"
    by (simp add: targetsConfigured_def configuredTransitions_def transitionsOfState_def
          example_defs)
  have valid: "currentStateValid exampleEngine"
    by (simp add: currentStateValid_def example_defs stopped_def)
  have ev: "currentState (fst (snd (handle exampleScheduler (Str ''go'') Undefined exampleEngine exampleEnv)))
     = Str ''running''"
    "currentState (fst (snd (stop exampleEngine exampleEnv))) = stopped"
    by (simp_all add: example_defs engine_defs)
  from C4_currentState_stopped_or_configured [OF wf valid]
  have "currentStateValid (fst (snd (handle exampleScheduler (Str ''go'') Undefined exampleEngine exampleEnv)))"
    "currentStateValid (fst (snd (stop exampleEngine exampleEnv)))"
    by blast+
  with wf valid ev show ?thesis by blast
qed

section \<open>Unhandled events\<close>

lemma settleEach_catching:
  "settleEach k hs args env = (outs, env') \<Longrightarrow>
   settleEach k (map catching hs) args env = (map (\<lambda>out. Inr (caught out)) outs, env')"
proof (induction hs arbitrary: env outs env')
  case Nil
  then show ?case by simp
next
  case (Cons h hs)
  obtain r env1 where c: "callHandler k h args env = (r, env1)"
    by (cases "callHandler k h args env")
  obtain rs env2 where s: "settleEach k hs args env1 = (rs, env2)"
    by (cases "settleEach k hs args env1")
  from c have c': "callHandler k (catching h) args env = (Inr (caught r), env1)"
    by (auto simp: callHandler_def catching_def caught_def split: prod.splits sum.splits)
  from Cons.prems c s have "outs = r # rs" "env' = env2" by auto
  with Cons.IH [OF s] c' show ?case by simp
qed

lemma collect_all_Inr: "collect (map (\<lambda>out. Inr (f out)) outs) = Inr (map f outs)"
  by (induction outs) auto

lemma invokeEach_catching:
  "settleEach k hs args env = (outs, env') \<Longrightarrow>
   invokeEach k (map catching hs) args env = (Inr (map caught outs), env')"
  by (simp add: invokeEach_def settleEach_catching collect_all_Inr)

text \<open>What \<open>handleUnhandledEvent\<close> makes of the settled hooks.\<close>

lemma handleUnhandledEvent_settled:
  assumes "settleEach UnhandledEventHook (unhandledEventHooks (global (config eng)))
             [event, currentState eng, createContextWithEvent event eventPayload] env = (outs, env')"
  shows "handleUnhandledEvent event eventPayload eng env =
     (let handlerResults = filter (\<lambda>x. x \<noteq> ignoreHandlerResult) (map caught outs) in
      if filter isHandlerFailure handlerResults \<noteq> []
      then Inl (first (filter isHandlerFailure handlerResults))
      else if filter isHandlerSuccess handlerResults \<noteq> []
      then Inr (first (filter (\<lambda>x. x \<noteq> Undefined) (filter isHandlerSuccess handlerResults)))
      else Inl (UnhandledEventError event (currentState eng)
                  (createContextWithEvent event eventPayload)),
      eng, env')"
proof (cases "unhandledEventHooks (global (config eng)) = []")
  case True
  with assms show ?thesis by (simp add: handleUnhandledEvent_def)
next
  case False
  with invokeEach_catching [OF assms] show ?thesis
    by (simp add: handleUnhandledEvent_def Let_def del: filter_filter)
qed

lemma all_ignored:
  "\<forall>out \<in> set outs. out = Inr ignoreHandlerResult \<Longrightarrow>
   filter (\<lambda>x. x \<noteq> ignoreHandlerResult) (map caught outs) = []"
  by (induction outs) (auto simp: caught_def)

lemma undefined_survivors:
  "\<forall>out \<in> set outs. out = Inr ignoreHandlerResult \<or> out = Inr Undefined \<Longrightarrow>
   filter (\<lambda>x. x \<noteq> ignoreHandlerResult) (map caught outs)
     = replicate (length (filter (\<lambda>out. out = Inr Undefined) outs)) Undefined"
  by (induction outs) (auto simp: caught_def ignoreHandlerResult_def)

text \<open>
  C1, as amended: when \<^verbatim>\<open>handle\<close> is called on a started engine and no transition
  matches, and \<^verbatim>\<open>global.unhandledEventHooks\<close> is empty or every hook returns the ignore
  sentinel, \<^verbatim>\<open>handle\<close> fails with an UnhandledEventError that carries the event, the
  current state and the context. When instead every hook returns the ignore sentinel
  or \<^verbatim>\<open>undefined\<close>, and at least one returns \<^verbatim>\<open>undefined\<close>, \<^verbatim>\<open>handle\<close> resolves with
  \<^verbatim>\<open>undefined\<close>.
\<close>

theorem C1_unhandled_event_error:
  assumes "isStarted eng"
    and "getFirstAllowedTransitionForEvent (createContextWithEvent event eventPayload) eng env
           = (Inr None, env1)"
    and "settleEach UnhandledEventHook (unhandledEventHooks (global (config eng)))
           [event, currentState eng, createContextWithEvent event eventPayload] env1 = (outs, env2)"
  shows "((\<forall>out \<in> set outs. out = Inr ignoreHandlerResult) \<longrightarrow>
            handle sched event eventPayload eng env =
              (Inl (UnhandledEventError event (currentState eng)
                      (createContextWithEvent event eventPayload)), eng, env2)) \<and>
         ((\<forall>out \<in> set outs. out = Inr ignoreHandlerResult \<or> out = Inr Undefined) \<and>
          Inr Undefined \<in> set outs \<longrightarrow>
            handle sched event eventPayload eng env = (Inr Undefined, eng, env2))"
proof (intro conjI impI)
  have h: "handle sched event eventPayload eng env = handleUnhandledEvent event eventPayload eng env1"
    using assms(1,2) by (simp add: handle_def)
  {
    assume "\<forall>out \<in> set outs. out = Inr ignoreHandlerResult"
    then have "filter (\<lambda>x. x \<noteq> ignoreHandlerResult) (map caught outs) = []"
      by (rule all_ignored)
    then show "handle sched event eventPayload eng env =
              (Inl (UnhandledEventError event (currentState eng)
                      (createContextWithEvent event eventPayload)), eng, env2)"
      by (simp add: h handleUnhandledEvent_settled [OF assms(3)])
  next
    assume a: "(\<forall>out \<in> set outs. out = Inr ignoreHandlerResult \<or> out = Inr Undefined) \<and>
          Inr Undefined \<in> set outs"
    then have "filter (\<lambda>out. out = Inr Undefined) outs \<noteq> []"
      by (auto simp: filter_empty_conv)
    then obtain n where n: "length (filter (\<lambda>out. out = Inr Undefined) outs) = Suc n"
      by (cases "filter (\<lambda>out. out = Inr Undefined) outs") auto
    from a have "filter (\<lambda>x. x \<noteq> ignoreHandlerResult) (map caught outs) = replicate (Suc n) Undefined"
      using undefined_survivors [of outs] n by simp
    then show "handle sched event eventPayload eng env = (Inr Undefined, eng, env2)"
      by (simp add: h handleUnhandledEvent_settled [OF assms(3)] isHandlerFailure_def
            isHandlerSuccess_def)
  }
qed

text \<open>
  The error is not raised where no hook produced a result other than \<^verbatim>\<open>undefined\<close>:
  the result of a single hook that returns \<^verbatim>\<open>undefined\<close> survives the filter for the
  ignore sentinel and counts as a success, so line 97 returns index 0 of the empty list
  of defined successes, which is \<^verbatim>\<open>undefined\<close>.
\<close>

theorem C1_counterexample:
  "isStarted (exampleHookedEngine [returning Undefined]) \<and>
   getFirstAllowedTransitionForEvent (createContextWithEvent (Str ''ping'') Undefined)
     (exampleHookedEngine [returning Undefined]) exampleEnv = (Inr None, exampleEnv) \<and>
   fst (settleEach UnhandledEventHook
          (unhandledEventHooks (global (config (exampleHookedEngine [returning Undefined]))))
          [Str ''ping'', Str ''idle'', createContextWithEvent (Str ''ping'') Undefined] exampleEnv)
     = [Inr Undefined] \<and>
   fst (handle exampleScheduler (Str ''ping'') Undefined
          (exampleHookedEngine [returning Undefined]) exampleEnv) = Inr Undefined"
  by (simp add: example_defs engine_defs)

theorem C1_witness:
  "isStarted (exampleHookedEngine [returning ignoreHandlerResult]) \<and>
   getFirstAllowedTransitionForEvent (createContextWithEvent (Str ''ping'') Undefined)
     (exampleHookedEngine [returning ignoreHandlerResult]) exampleEnv = (Inr None, exampleEnv) \<and>
   settleEach UnhandledEventHook
     (unhandledEventHooks (global (config (exampleHookedEngine [returning ignoreHandlerResult]))))
     [Str ''ping'', currentState (exampleHookedEngine [returning ignoreHandlerResult]),
      createContextWithEvent (Str ''ping'') Undefined] exampleEnv
     = ([Inr ignoreHandlerResult],
        exampleEnv\<lparr>world := 1,
          trace := [(UnhandledEventHook,
                     [Str ''ping'', Str ''idle'', createContextWithEvent (Str ''ping'') Undefined])]\<rparr>) \<and>
   handle exampleScheduler (Str ''ping'') Undefined
     (exampleHookedEngine [returning ignoreHandlerResult]) exampleEnv
     = (Inl (UnhandledEventError (Str ''ping'') (Str ''idle'')
               (createContextWithEvent (Str ''ping'') Undefined)),
        exampleHookedEngine [returning ignoreHandlerResult],
        exampleEnv\<lparr>world := 1,
          trace := [(UnhandledEventHook,
                     [Str ''ping'', Str ''idle'', createContextWithEvent (Str ''ping'') Undefined])]\<rparr>)"
proof -
  have started: "isStarted (exampleHookedEngine [returning ignoreHandlerResult])"
    by (simp add: exampleHookedEngine_def isStarted_def stopped_def)
  have nomatch: "getFirstAllowedTransitionForEvent (createContextWithEvent (Str ''ping'') Undefined)
     (exampleHookedEngine [returning ignoreHandlerResult]) exampleEnv = (Inr None, exampleEnv)"
    by (simp add: exampleHookedEngine_def getFirstAllowedTransitionForEvent_def
          createContextWithEvent_def)
  have settled: "settleEach UnhandledEventHook
     (unhandledEventHooks (global (config (exampleHookedEngine [returning ignoreHandlerResult]))))
     [Str ''ping'', currentState (exampleHookedEngine [returning ignoreHandlerResult]),
      createContextWithEvent (Str ''ping'') Undefined] exampleEnv
     = ([Inr ignoreHandlerResult],
        exampleEnv\<lparr>world := 1,
          trace := [(UnhandledEventHook,
                     [Str ''ping'', Str ''idle'', createContextWithEvent (Str ''ping'') Undefined])]\<rparr>)"
    by (simp add: exampleHookedEngine_def returning_def callHandler_def exampleEnv_def)
  have cur: "currentState (exampleHookedEngine [returning ignoreHandlerResult]) = Str ''idle''"
    by (simp add: exampleHookedEngine_def)
  from C1_unhandled_event_error [OF started nomatch settled, THEN conjunct1]
  have "handle exampleScheduler (Str ''ping'') Undefined
     (exampleHookedEngine [returning ignoreHandlerResult]) exampleEnv
     = (Inl (UnhandledEventError (Str ''ping'') (Str ''idle'')
               (createContextWithEvent (Str ''ping'') Undefined)),
        exampleHookedEngine [returning ignoreHandlerResult],
        exampleEnv\<lparr>world := 1,
          trace := [(UnhandledEventHook,
                     [Str ''ping'', Str ''idle'', createContextWithEvent (Str ''ping'') Undefined])]\<rparr>)"
    by (simp add: cur)
  with started nomatch settled show ?thesis by (intro conjI)
qed

text \<open>
  When a hook throws and no earlier hook returned a pair headed by the private marker,
  the rejection is the pair of the marker and the first thrown value in hook order,
  whatever the other hooks returned.
\<close>

lemma handleUnhandledEvent_first_thrown:
  assumes "settleEach UnhandledEventHook (unhandledEventHooks (global (config eng)))
             [event, currentState eng, createContextWithEvent event eventPayload] env = (outs, env')"
    and "outs = pre @ Inl e # post"
    and "\<forall>out \<in> set pre. \<exists>v. out = Inr v \<and> \<not> isHandlerFailure v"
  shows "handleUnhandledEvent event eventPayload eng env
           = (Inl (Arr [symHandlerThrewError, e]), eng, env')"
proof -
  have pre: "filter isHandlerFailure (filter (\<lambda>x. x \<noteq> ignoreHandlerResult) (map caught pre)) = []"
    using assms(3) by (induction pre) (auto simp: caught_def)
  have "filter isHandlerFailure (filter (\<lambda>x. x \<noteq> ignoreHandlerResult) (map caught outs))
        = Arr [symHandlerThrewError, e] #
          filter isHandlerFailure (filter (\<lambda>x. x \<noteq> ignoreHandlerResult) (map caught post))"
    using pre
    by (simp add: assms(2) caught_def ignoreHandlerResult_def isHandlerFailure_def
          del: filter_filter)
  then show ?thesis
    by (simp add: handleUnhandledEvent_settled [OF assms(1)] Let_def del: filter_filter)
qed

text \<open>
  C2: with two hooks, the first throwing \<^verbatim>\<open>'boom'\<close> and the second returning 2, \<^verbatim>\<open>handle\<close>
  rejects with the array of the private marker and \<^verbatim>\<open>'boom'\<close> (line 96 throws
  \<^verbatim>\<open>handlerFailures[0]\<close>, the pair built on line 81), not with \<^verbatim>\<open>'boom'\<close> itself.
\<close>

theorem C2_first_thrown_error_is_wrapped:
  "fst (handle exampleScheduler (Str ''ping'') Undefined
          (exampleHookedEngine [throwing (Str ''boom''), returning (Num 2)]) exampleEnv)
     = Inl (Arr [symHandlerThrewError, Str ''boom'']) \<and>
   fst (handle exampleScheduler (Str ''ping'') Undefined
          (exampleHookedEngine [throwing (Str ''boom''), returning (Num 2)]) exampleEnv)
     \<noteq> Inl (Str ''boom'')"
  by (simp add: example_defs engine_defs)

end
